theory Spec2Isabelle
  imports Main
begin

section \<open>The streaming multipart reader of aiocouchdb (aiocouchdb/multipart.py)\<close>

text \<open>
  A shallow embedding of the classes \<^verbatim>\<open>BodyPartReader\<close> and \<^verbatim>\<open>MultipartReader\<close>.
  Python \<^verbatim>\<open>bytes\<close> are lists of characters. A Python \<^verbatim>\<open>str\<close> is represented by the
  bytes of its UTF-8 encoding, so \<^verbatim>\<open>str.encode()\<close> is the identity; decoding is done by an
  external function (see \<open>ext\<close> below). Every coroutine becomes a function that takes
  the state of the reader object and the state of the shared content stream and returns
  both, updated. An exception is the value \<open>Raise e\<close>; assertions are checked, as
  Python does unless it is asked to optimise. A loop that might not end takes a bound on
  its number of iterations and returns \<open>OutOfFuel\<close> when the bound is used up.
\<close>

subsection \<open>Values, errors, results\<close>

type_synonym bytes = string

text \<open>
  The header mapping (aiohttp's multidict). \<^verbatim>\<open>headers.get(k)\<close> returns the first value
  stored under \<open>k\<close>, \<^verbatim>\<open>headers[k]\<close> raises KeyError when there is none.
\<close>

type_synonym headers = "(string \<times> string) list"

definition headers_get :: "headers \<Rightarrow> string \<Rightarrow> string option" where
  "headers_get h k = map_of h k"

datatype error =
    AssertionError
  | AttributeError string
  | KeyError string
  | ValueError_int string
  | ValueError_boundary bytes bytes
  | UnicodeDecodeError
  | HeaderParseError
  | ZlibError

datatype 'a res = OutOfFuel | Raise error | Ret 'a

definition CRLF :: bytes where "CRLF = [CHR 0x0D, CHR 0x0A]"

text \<open>\<^verbatim>\<open>bytes.startswith\<close>, \<^verbatim>\<open>bytes.rstrip(chars)\<close> and \<^verbatim>\<open>bytes.rstrip()\<close>; the last one strips
  the ASCII whitespace bytes space, tab, LF, CR, VT and FF.\<close>

definition startswith :: "bytes \<Rightarrow> bytes \<Rightarrow> bool" where
  "startswith line b = (take (length b) line = b)"

definition rstrip_chars :: "char list \<Rightarrow> bytes \<Rightarrow> bytes" where
  "rstrip_chars cs xs = rev (dropWhile (\<lambda>c. c \<in> set cs) (rev xs))"

definition ascii_whitespace :: "char list" where
  "ascii_whitespace = [CHR 0x20, CHR 0x09, CHR 0x0A, CHR 0x0D, CHR 0x0B, CHR 0x0C]"

definition rstrip :: "bytes \<Rightarrow> bytes" where
  "rstrip xs = rstrip_chars ascii_whitespace xs"

text \<open>Modelled from the spec: the header names of the module \<^verbatim>\<open>hdrs\<close>, which the source imports
  and which is not among the source files. The spec names the three headers.\<close>

definition CONTENT_ENCODING :: string where "CONTENT_ENCODING = ''Content-Encoding''"
definition CONTENT_LENGTH :: string where "CONTENT_LENGTH = ''Content-Length''"
definition CONTENT_TYPE :: string where "CONTENT_TYPE = ''Content-Type''"

subsection \<open>The external collaborators\<close>

text \<open>
  What the module calls and does not define is a parameter of the model, a record of
  functions over an arbitrary type \<open>'s\<close> of stream states:
  \<^item> \<open>stream_readline\<close>, \<open>stream_read\<close>: the content stream's \<^verbatim>\<open>readline()\<close> and \<^verbatim>\<open>read(n)\<close>;
    each returns the bytes delivered and the stream after the call;
  \<^item> \<open>decode_strip\<close>: \<^verbatim>\<open>chunk.decode().strip()\<close>, \<open>None\<close> when decoding raises;
  \<^item> \<open>parse_headers\<close>: \<^verbatim>\<open>HttpParser().parse_headers(lines)\<close>, its first component,
    \<open>None\<close> when it raises;
  \<^item> \<open>parse_mimetype\<close>: aiohttp's \<^verbatim>\<open>parse_mimetype\<close>, the media type and the parameters
    (the two components the module uses);
  \<^item> \<open>py_int\<close>: the builtin \<^verbatim>\<open>int\<close> on a string, \<open>None\<close> when it raises ValueError;
  \<^item> \<open>zlib_decompress\<close>: \<^verbatim>\<open>zlib.decompress(data, wbits)\<close>, \<open>None\<close> when it raises.
\<close>

record 's ext =
  stream_readline :: "'s \<Rightarrow> bytes \<times> 's"
  stream_read :: "int \<Rightarrow> 's \<Rightarrow> bytes \<times> 's"
  decode_strip :: "bytes \<Rightarrow> string option"
  parse_headers :: "string list \<Rightarrow> headers option"
  parse_mimetype :: "string \<Rightarrow> string \<times> (string \<times> string) list"
  py_int :: "string \<Rightarrow> int option"
  zlib_decompress :: "bytes \<Rightarrow> int \<Rightarrow> bytes option"

text \<open>\<^verbatim>\<open>zlib.MAX_WBITS\<close>.\<close>

definition MAX_WBITS :: int where "MAX_WBITS = 15"

subsection \<open>BodyPartReader\<close>

record body_part_reader =
  bp_headers :: headers
  bp_boundary :: bytes
  bp_at_eof :: bool
  bp_length :: "int option"
  bp_read_bytes :: int
  bp_unread :: "bytes list"

text \<open>\<^verbatim>\<open>BodyPartReader.chunk_size\<close>.\<close>

definition chunk_size :: int where "chunk_size = 8192"

text \<open>\<^verbatim>\<open>BodyPartReader.__init__\<close>. The content stream is shared by all readers and is passed
  to every operation instead of being stored.\<close>

definition BodyPartReader_init :: "'s ext \<Rightarrow> bytes \<Rightarrow> headers \<Rightarrow> body_part_reader res" where
  "BodyPartReader_init ex boundary hdrs =
     (case headers_get hdrs CONTENT_LENGTH of
        None \<Rightarrow>
          Ret \<lparr>bp_headers = hdrs, bp_boundary = boundary, bp_at_eof = False,
               bp_length = None, bp_read_bytes = 0, bp_unread = []\<rparr>
      | Some v \<Rightarrow>
          (case py_int ex v of
             None \<Rightarrow> Raise (ValueError_int v)
           | Some n \<Rightarrow>
               Ret \<lparr>bp_headers = hdrs, bp_boundary = boundary, bp_at_eof = False,
                    bp_length = Some n, bp_read_bytes = 0, bp_unread = []\<rparr>))"

text \<open>\<^verbatim>\<open>BodyPartReader.read_chunk(size)\<close>.\<close>

definition bp_read_chunk ::
  "'s ext \<Rightarrow> body_part_reader \<Rightarrow> 's \<Rightarrow> int \<Rightarrow> (bytes \<times> body_part_reader \<times> 's) res" where
  "bp_read_chunk ex p s sz =
     (if bp_at_eof p then Ret ([], p, s)
      else case bp_length p of
        None \<Rightarrow> Raise AssertionError
      | Some len \<Rightarrow>
          (let csize = min sz (len - bp_read_bytes p);
               (chunk, s') = stream_read ex csize s;
               p' = p\<lparr>bp_read_bytes := bp_read_bytes p + csize\<rparr>;
               p'' = (if bp_read_bytes p' = len then p'\<lparr>bp_at_eof := True\<rparr> else p')
           in Ret (chunk, p'', s')))"

text \<open>\<^verbatim>\<open>BodyPartReader.readline()\<close>.\<close>

definition bp_readline ::
  "'s ext \<Rightarrow> body_part_reader \<Rightarrow> 's \<Rightarrow> (bytes \<times> body_part_reader \<times> 's) res" where
  "bp_readline ex p s =
     (if bp_at_eof p then Ret ([], p, s)
      else
        (let (line, s') = stream_readline ex s in
         if startswith line (bp_boundary p) then
           (let sline = rstrip_chars CRLF line;
                boundary = bp_boundary p;
                last_boundary = bp_boundary p @ ''--''
            in if sline = boundary \<or> sline = last_boundary
               then Ret ([], p\<lparr>bp_at_eof := True, bp_unread := bp_unread p @ [line]\<rparr>, s')
               else Ret (line, p, s'))
         else Ret (line, p, s')))"

text \<open>\<^verbatim>\<open>decode_deflate\<close>, \<^verbatim>\<open>decode_gzip\<close> and \<^verbatim>\<open>decode\<close>. The lookup
  \<^verbatim>\<open>getattr(self, 'decode_%s' % encoding)\<close> finds the two methods of the class whose names
  start with \<^verbatim>\<open>decode_\<close> and raises AttributeError for every other name.\<close>

definition bp_decode_deflate :: "'s ext \<Rightarrow> bytes \<Rightarrow> bytes res" where
  "bp_decode_deflate ex data =
     (case zlib_decompress ex data (- MAX_WBITS) of None \<Rightarrow> Raise ZlibError | Some d \<Rightarrow> Ret d)"

definition bp_decode_gzip :: "'s ext \<Rightarrow> bytes \<Rightarrow> bytes res" where
  "bp_decode_gzip ex data =
     (case zlib_decompress ex data (16 + MAX_WBITS) of None \<Rightarrow> Raise ZlibError | Some d \<Rightarrow> Ret d)"

definition bp_decode :: "'s ext \<Rightarrow> body_part_reader \<Rightarrow> bytes \<Rightarrow> bytes res" where
  "bp_decode ex p data =
     (case headers_get (bp_headers p) CONTENT_ENCODING of
        None \<Rightarrow> Ret data
      | Some encoding \<Rightarrow>
          if encoding = [] then Ret data
          else if encoding = ''deflate'' then bp_decode_deflate ex data
          else if encoding = ''gzip'' then bp_decode_gzip ex data
          else Raise (AttributeError (''decode_'' @ encoding)))"

text \<open>The two loops of \<^verbatim>\<open>read\<close>: \<^verbatim>\<open>while not self._at_eof: data.extend(...)\<close>. The first
  argument bounds the number of iterations.\<close>

fun bp_read_lines ::
  "nat \<Rightarrow> 's ext \<Rightarrow> body_part_reader \<Rightarrow> 's \<Rightarrow> bytes \<Rightarrow> (bytes \<times> body_part_reader \<times> 's) res" where
  "bp_read_lines 0 ex p s data = (if bp_at_eof p then Ret (data, p, s) else OutOfFuel)"
| "bp_read_lines (Suc n) ex p s data =
     (if bp_at_eof p then Ret (data, p, s)
      else case bp_readline ex p s of
        Ret (line, p', s') \<Rightarrow> bp_read_lines n ex p' s' (data @ line)
      | Raise e \<Rightarrow> Raise e
      | OutOfFuel \<Rightarrow> OutOfFuel)"

fun bp_read_chunks ::
  "nat \<Rightarrow> 's ext \<Rightarrow> body_part_reader \<Rightarrow> 's \<Rightarrow> bytes \<Rightarrow> (bytes \<times> body_part_reader \<times> 's) res" where
  "bp_read_chunks 0 ex p s data = (if bp_at_eof p then Ret (data, p, s) else OutOfFuel)"
| "bp_read_chunks (Suc n) ex p s data =
     (if bp_at_eof p then Ret (data, p, s)
      else case bp_read_chunk ex p s chunk_size of
        Ret (chunk, p', s') \<Rightarrow> bp_read_chunks n ex p' s' (data @ chunk)
      | Raise e \<Rightarrow> Raise e
      | OutOfFuel \<Rightarrow> OutOfFuel)"

text \<open>\<^verbatim>\<open>BodyPartReader.read(decode)\<close>.\<close>

definition bp_read ::
  "nat \<Rightarrow> 's ext \<Rightarrow> body_part_reader \<Rightarrow> 's \<Rightarrow> bool \<Rightarrow> (bytes \<times> body_part_reader \<times> 's) res" where
  "bp_read n ex p s decode =
     (if bp_at_eof p then Ret ([], p, s)
      else
        (case (if bp_length p = None then bp_read_lines n ex p s []
               else (case bp_read_chunks n ex p s [] of
                       Ret (data, p', s') \<Rightarrow>
                         (let (line, s'') = stream_readline ex s' in
                          if CRLF = line then Ret (data, p', s'') else Raise AssertionError)
                     | Raise e \<Rightarrow> Raise e
                     | OutOfFuel \<Rightarrow> OutOfFuel)) of
           Ret (data, p', s') \<Rightarrow>
             if decode then
               (case bp_decode ex p' data of
                  Ret d \<Rightarrow> Ret (d, p', s')
                | Raise e \<Rightarrow> Raise e
                | OutOfFuel \<Rightarrow> OutOfFuel)
             else Ret (data, p', s')
         | Raise e \<Rightarrow> Raise e
         | OutOfFuel \<Rightarrow> OutOfFuel))"

text \<open>\<^verbatim>\<open>BodyPartReader.release()\<close>: the loops of \<^verbatim>\<open>read\<close>, the data dropped.\<close>

fun bp_release_lines ::
  "nat \<Rightarrow> 's ext \<Rightarrow> body_part_reader \<Rightarrow> 's \<Rightarrow> (body_part_reader \<times> 's) res" where
  "bp_release_lines 0 ex p s = (if bp_at_eof p then Ret (p, s) else OutOfFuel)"
| "bp_release_lines (Suc n) ex p s =
     (if bp_at_eof p then Ret (p, s)
      else case bp_readline ex p s of
        Ret (line, p', s') \<Rightarrow> bp_release_lines n ex p' s'
      | Raise e \<Rightarrow> Raise e
      | OutOfFuel \<Rightarrow> OutOfFuel)"

fun bp_release_chunks ::
  "nat \<Rightarrow> 's ext \<Rightarrow> body_part_reader \<Rightarrow> 's \<Rightarrow> (body_part_reader \<times> 's) res" where
  "bp_release_chunks 0 ex p s = (if bp_at_eof p then Ret (p, s) else OutOfFuel)"
| "bp_release_chunks (Suc n) ex p s =
     (if bp_at_eof p then Ret (p, s)
      else case bp_read_chunk ex p s chunk_size of
        Ret (chunk, p', s') \<Rightarrow> bp_release_chunks n ex p' s'
      | Raise e \<Rightarrow> Raise e
      | OutOfFuel \<Rightarrow> OutOfFuel)"

definition bp_release ::
  "nat \<Rightarrow> 's ext \<Rightarrow> body_part_reader \<Rightarrow> 's \<Rightarrow> (body_part_reader \<times> 's) res" where
  "bp_release n ex p s =
     (if bp_at_eof p then Ret (p, s)
      else if bp_length p = None then bp_release_lines n ex p s
      else (case bp_release_chunks n ex p s of
              Ret (p', s') \<Rightarrow>
                (let (line, s'') = stream_readline ex s' in
                 if CRLF = line then Ret (p', s'') else Raise AssertionError)
            | Raise e \<Rightarrow> Raise e
            | OutOfFuel \<Rightarrow> OutOfFuel))"

subsection \<open>MultipartReader\<close>

text \<open>
  A part handed out by \<^verbatim>\<open>MultipartReader.next()\<close> is a \<^verbatim>\<open>BodyPartReader\<close> or a nested
  \<^verbatim>\<open>MultipartReader\<close>. The reader keeps the part it handed out last in \<^verbatim>\<open>_last_part\<close>; the
  caller holds the same object, so whoever drives a part stores its new state back into
  the reader (\<open>set_last_part\<close>).
\<close>

datatype part = BodyPart body_part_reader | Multipart multipart_reader
and multipart_reader =
  MultipartReader (mr_headers: headers) (mr_boundary: bytes) (mr_last_part: "part option")
    (mr_at_eof: bool) (mr_unread: "bytes list")

definition set_last_part :: "multipart_reader \<Rightarrow> part option \<Rightarrow> multipart_reader" where
  "set_last_part r lp =
     MultipartReader (mr_headers r) (mr_boundary r) lp (mr_at_eof r) (mr_unread r)"

definition set_at_eof :: "multipart_reader \<Rightarrow> bool \<Rightarrow> multipart_reader" where
  "set_at_eof r b =
     MultipartReader (mr_headers r) (mr_boundary r) (mr_last_part r) b (mr_unread r)"

definition set_unread :: "multipart_reader \<Rightarrow> bytes list \<Rightarrow> multipart_reader" where
  "set_unread r u =
     MultipartReader (mr_headers r) (mr_boundary r) (mr_last_part r) (mr_at_eof r) u"

text \<open>\<^verbatim>\<open>part.at_eof()\<close> and \<^verbatim>\<open>part._unread\<close> of either kind of part.\<close>

fun part_at_eof :: "part \<Rightarrow> bool" where
  "part_at_eof (BodyPart p) = bp_at_eof p"
| "part_at_eof (Multipart m) = mr_at_eof m"

fun part_unread :: "part \<Rightarrow> bytes list" where
  "part_unread (BodyPart p) = bp_unread p"
| "part_unread (Multipart m) = mr_unread m"

text \<open>\<^verbatim>\<open>MultipartReader._get_boundary\<close> and \<^verbatim>\<open>MultipartReader.__init__\<close>.\<close>

definition mr_get_boundary :: "'s ext \<Rightarrow> headers \<Rightarrow> string res" where
  "mr_get_boundary ex hdrs =
     (case headers_get hdrs CONTENT_TYPE of
        None \<Rightarrow> Raise (KeyError CONTENT_TYPE)
      | Some ctype \<Rightarrow>
          (let (mtype, params) = parse_mimetype ex ctype in
           if mtype \<noteq> ''multipart'' then Raise AssertionError
           else case map_of params ''boundary'' of
                  None \<Rightarrow> Raise (KeyError ''boundary'')
                | Some b \<Rightarrow> Ret b))"

definition MultipartReader_init :: "'s ext \<Rightarrow> headers \<Rightarrow> multipart_reader res" where
  "MultipartReader_init ex hdrs =
     (case mr_get_boundary ex hdrs of
        Ret b \<Rightarrow> Ret (MultipartReader hdrs (''--'' @ b) None False [])
      | Raise e \<Rightarrow> Raise e
      | OutOfFuel \<Rightarrow> OutOfFuel)"

text \<open>\<^verbatim>\<open>MultipartReader._get_part_reader\<close>; \<^verbatim>\<open>multipart_reader_cls\<close> is \<^verbatim>\<open>None\<close> and
  \<^verbatim>\<open>part_reader_cls\<close> is \<^verbatim>\<open>BodyPartReader\<close>, as the class sets them.\<close>

definition mr_get_part_reader :: "'s ext \<Rightarrow> multipart_reader \<Rightarrow> headers \<Rightarrow> part res" where
  "mr_get_part_reader ex r hdrs =
     (let ctype = (case headers_get hdrs CONTENT_TYPE of None \<Rightarrow> [] | Some v \<Rightarrow> v);
          (mtype, params) = parse_mimetype ex ctype
      in if mtype = ''multipart'' then
           (case MultipartReader_init ex hdrs of
              Ret m \<Rightarrow> Ret (Multipart m)
            | Raise e \<Rightarrow> Raise e
            | OutOfFuel \<Rightarrow> OutOfFuel)
         else
           (case BodyPartReader_init ex (mr_boundary r) hdrs of
              Ret p \<Rightarrow> Ret (BodyPart p)
            | Raise e \<Rightarrow> Raise e
            | OutOfFuel \<Rightarrow> OutOfFuel))"

text \<open>\<^verbatim>\<open>MultipartReader._readline\<close>: \<^verbatim>\<open>list.pop()\<close> takes the last pushed-back line.\<close>

definition mr_readline :: "'s ext \<Rightarrow> multipart_reader \<Rightarrow> 's \<Rightarrow> bytes \<times> multipart_reader \<times> 's" where
  "mr_readline ex r s =
     (if mr_unread r \<noteq> [] then (last (mr_unread r), set_unread r (butlast (mr_unread r)), s)
      else (let (line, s') = stream_readline ex s in (line, r, s')))"

text \<open>\<^verbatim>\<open>MultipartReader._read_boundary\<close>.\<close>

definition mr_read_boundary :: "'s ext \<Rightarrow> multipart_reader \<Rightarrow> 's \<Rightarrow> (multipart_reader \<times> 's) res" where
  "mr_read_boundary ex r s =
     (let (line, r', s') = mr_readline ex r s;
          chunk = rstrip line
      in if chunk = mr_boundary r' then Ret (r', s')
         else if chunk = mr_boundary r' @ ''--'' then Ret (set_at_eof r' True, s')
         else Raise (ValueError_boundary chunk (mr_boundary r')))"

text \<open>\<^verbatim>\<open>MultipartReader._read_headers\<close>: the loop \<^verbatim>\<open>while True\<close>, bounded, and the parse.\<close>

fun mr_read_header_lines :: "nat \<Rightarrow> 's ext \<Rightarrow> 's \<Rightarrow> string list \<Rightarrow> (string list \<times> 's) res" where
  "mr_read_header_lines 0 ex s lines = OutOfFuel"
| "mr_read_header_lines (Suc n) ex s lines =
     (let (chunk, s') = stream_readline ex s in
      case decode_strip ex chunk of
        None \<Rightarrow> Raise UnicodeDecodeError
      | Some c \<Rightarrow>
          if c = [] then Ret (lines @ [c], s')
          else mr_read_header_lines n ex s' (lines @ [c]))"

definition mr_read_headers :: "nat \<Rightarrow> 's ext \<Rightarrow> 's \<Rightarrow> (headers \<times> 's) res" where
  "mr_read_headers n ex s =
     (case mr_read_header_lines n ex s [[]] of
        Ret (lines, s') \<Rightarrow>
          (case parse_headers ex lines of
             None \<Rightarrow> Raise HeaderParseError
           | Some hdrs \<Rightarrow> Ret (hdrs, s'))
      | Raise e \<Rightarrow> Raise e
      | OutOfFuel \<Rightarrow> OutOfFuel)"

text \<open>\<^verbatim>\<open>MultipartReader.fetch_next_part\<close>.\<close>

definition mr_fetch_next_part ::
  "nat \<Rightarrow> 's ext \<Rightarrow> multipart_reader \<Rightarrow> 's \<Rightarrow> (part \<times> 's) res" where
  "mr_fetch_next_part n ex r s =
     (case mr_read_headers n ex s of
        Ret (hdrs, s') \<Rightarrow>
          (case mr_get_part_reader ex r hdrs of
             Ret pt \<Rightarrow> Ret (pt, s')
           | Raise e \<Rightarrow> Raise e
           | OutOfFuel \<Rightarrow> OutOfFuel)
      | Raise e \<Rightarrow> Raise e
      | OutOfFuel \<Rightarrow> OutOfFuel)"

text \<open>
  \<^verbatim>\<open>MultipartReader.next\<close>, \<^verbatim>\<open>MultipartReader.release\<close>, \<^verbatim>\<open>_maybe_release_last_part\<close> and the
  call \<^verbatim>\<open>part.release()\<close> on either kind of part. They call each other through nested
  readers; the first argument bounds the depth of these calls and the iterations of the
  loops below them.
\<close>

fun mr_next ::
    "nat \<Rightarrow> 's ext \<Rightarrow> multipart_reader \<Rightarrow> 's \<Rightarrow> (part option \<times> multipart_reader \<times> 's) res"
  and mr_release :: "nat \<Rightarrow> 's ext \<Rightarrow> multipart_reader \<Rightarrow> 's \<Rightarrow> (multipart_reader \<times> 's) res"
  and mr_maybe_release_last_part ::
    "nat \<Rightarrow> 's ext \<Rightarrow> multipart_reader \<Rightarrow> 's \<Rightarrow> (multipart_reader \<times> 's) res"
  and part_release :: "nat \<Rightarrow> 's ext \<Rightarrow> part \<Rightarrow> 's \<Rightarrow> (part \<times> 's) res"
where
  "mr_next 0 ex r s = (if mr_at_eof r then Ret (None, r, s) else OutOfFuel)"
| "mr_next (Suc n) ex r s =
     (if mr_at_eof r then Ret (None, r, s)
      else case mr_maybe_release_last_part n ex r s of
        Ret (r1, s1) \<Rightarrow>
          (case mr_read_boundary ex r1 s1 of
             Ret (r2, s2) \<Rightarrow>
               if mr_at_eof r2 then Ret (None, r2, s2)
               else (case mr_fetch_next_part n ex r2 s2 of
                       Ret (pt, s3) \<Rightarrow> Ret (Some pt, set_last_part r2 (Some pt), s3)
                     | Raise e \<Rightarrow> Raise e
                     | OutOfFuel \<Rightarrow> OutOfFuel)
           | Raise e \<Rightarrow> Raise e
           | OutOfFuel \<Rightarrow> OutOfFuel)
      | Raise e \<Rightarrow> Raise e
      | OutOfFuel \<Rightarrow> OutOfFuel)"
| "mr_release 0 ex r s = (if mr_at_eof r then Ret (r, s) else OutOfFuel)"
| "mr_release (Suc n) ex r s =
     (if mr_at_eof r then Ret (r, s)
      else case mr_next n ex r s of
        Ret (None, r', s') \<Rightarrow> Ret (r', s')
      | Ret (Some item, r', s') \<Rightarrow>
          (case part_release n ex item s' of
             Ret (item', s'') \<Rightarrow> mr_release n ex (set_last_part r' (Some item')) s''
           | Raise e \<Rightarrow> Raise e
           | OutOfFuel \<Rightarrow> OutOfFuel)
      | Raise e \<Rightarrow> Raise e
      | OutOfFuel \<Rightarrow> OutOfFuel)"
| "mr_maybe_release_last_part n ex r s =
     (case mr_last_part r of
        None \<Rightarrow> Ret (r, s)
      | Some lp \<Rightarrow>
          (case (if \<not> part_at_eof lp then part_release n ex lp s else Ret (lp, s)) of
             Ret (lp', s') \<Rightarrow>
               Ret (MultipartReader (mr_headers r) (mr_boundary r) None (mr_at_eof r)
                      (mr_unread r @ part_unread lp'), s')
           | Raise e \<Rightarrow> Raise e
           | OutOfFuel \<Rightarrow> OutOfFuel))"
| "part_release n ex (BodyPart p) s =
     (case bp_release n ex p s of
        Ret (p', s') \<Rightarrow> Ret (BodyPart p', s')
      | Raise e \<Rightarrow> Raise e
      | OutOfFuel \<Rightarrow> OutOfFuel)"
| "part_release n ex (Multipart m) s =
     (case mr_release n ex m s of
        Ret (m', s') \<Rightarrow> Ret (Multipart m', s')
      | Raise e \<Rightarrow> Raise e
      | OutOfFuel \<Rightarrow> OutOfFuel)"

subsection \<open>A content stream held in memory\<close>

text \<open>
  The stream whose whole content has arrived: the state is the list of bytes not read
  yet. \<^verbatim>\<open>readline()\<close> delivers the bytes up to and including the first LF, or all of them
  when there is no LF; \<^verbatim>\<open>read(n)\<close> delivers \<open>n\<close> bytes, fewer only at the end of the
  stream, and everything when \<open>n\<close> is negative.
\<close>

fun mem_readline :: "bytes \<Rightarrow> bytes \<times> bytes" where
  "mem_readline [] = ([], [])"
| "mem_readline (c # cs) =
     (if c = CHR 0x0A then ([c], cs)
      else (case mem_readline cs of (l, r) \<Rightarrow> (c # l, r)))"

definition mem_read :: "int \<Rightarrow> bytes \<Rightarrow> bytes \<times> bytes" where
  "mem_read n s = (if n < 0 then (s, []) else (take (nat n) s, drop (nat n) s))"

subsection \<open>Collaborators for the examples\<close>

text \<open>
  Small stand-ins for the external functions, used where a theorem is applied to a
  concrete body: the stream is the one held in memory, a header line is split at its
  first colon, the media type is the text before the slash, the boundary parameter is
  the text after \<^verbatim>\<open>boundary=\<close>, an integer is a sequence of decimal digits, and the
  compressed form of \<open>d\<close> is \<open>d\<close> behind a three-letter tag.
\<close>

definition demo_strip :: "bytes \<Rightarrow> string" where
  "demo_strip b = dropWhile (\<lambda>c. c \<in> set ascii_whitespace) (rstrip b)"

definition demo_split_header :: "string \<Rightarrow> string \<times> string" where
  "demo_split_header l =
     (takeWhile (\<lambda>c. c \<noteq> CHR '':'') l,
      dropWhile (\<lambda>c. c = CHR '' '') (drop 1 (dropWhile (\<lambda>c. c \<noteq> CHR '':'') l)))"

definition demo_parse_headers :: "string list \<Rightarrow> headers option" where
  "demo_parse_headers lines = Some (map demo_split_header (filter (\<lambda>l. l \<noteq> []) lines))"

fun demo_boundary_param :: "string \<Rightarrow> (string \<times> string) list" where
  "demo_boundary_param [] = []"
| "demo_boundary_param (c # cs) =
     (if take 9 (c # cs) = ''boundary='' then [(''boundary'', drop 9 (c # cs))]
      else demo_boundary_param cs)"

definition demo_parse_mimetype :: "string \<Rightarrow> string \<times> (string \<times> string) list" where
  "demo_parse_mimetype ct = (takeWhile (\<lambda>c. c \<noteq> CHR ''/'') ct, demo_boundary_param ct)"

definition demo_digit :: "char \<Rightarrow> bool" where
  "demo_digit c = (c \<in> set ''0123456789'')"

definition demo_int :: "string \<Rightarrow> int option" where
  "demo_int v =
     (if v \<noteq> [] \<and> list_all demo_digit v
      then Some (foldl (\<lambda>a c. 10 * a + (int (of_char c) - 48)) 0 v) else None)"

definition demo_zlib :: "bytes \<Rightarrow> int \<Rightarrow> bytes option" where
  "demo_zlib data wbits =
     (if wbits = 31 \<and> take 3 data = ''GZ:'' then Some (drop 3 data)
      else if wbits = - 15 \<and> take 3 data = ''DF:'' then Some (drop 3 data)
      else None)"

definition demo_ext :: "bytes ext" where
  "demo_ext =
     \<lparr>stream_readline = mem_readline, stream_read = mem_read,
      decode_strip = (\<lambda>b. Some (demo_strip b)), parse_headers = demo_parse_headers,
      parse_mimetype = demo_parse_mimetype, py_int = demo_int, zlib_decompress = demo_zlib\<rparr>"

text \<open>Two parts for the examples: one without a declared length, one that declares
  five bytes; and a reader for the boundary \<^verbatim>\<open>B\<close>.\<close>

definition demo_lines_reader :: body_part_reader where
  "demo_lines_reader =
     \<lparr>bp_headers = [], bp_boundary = ''--B'', bp_at_eof = False,
      bp_length = None, bp_read_bytes = 0, bp_unread = []\<rparr>"

definition demo_sized_reader :: body_part_reader where
  "demo_sized_reader =
     \<lparr>bp_headers = [(''Content-Length'', ''5'')], bp_boundary = ''--B'', bp_at_eof = False,
      bp_length = Some 5, bp_read_bytes = 0, bp_unread = []\<rparr>"

definition demo_reader :: multipart_reader where
  "demo_reader = MultipartReader [] ''--B'' None False []"

definition demo_nested_headers :: headers where
  "demo_nested_headers = [(''Content-Type'', ''multipart/mixed; boundary=IN'')]"

subsection \<open>Callers\<close>

text \<open>A caller that calls \<^verbatim>\<open>read_chunk\<close> once for each size of a list, and one that calls
  \<^verbatim>\<open>readline\<close> a number of times, on the same part.\<close>

fun bp_read_chunk_calls ::
  "'s ext \<Rightarrow> body_part_reader \<Rightarrow> 's \<Rightarrow> int list \<Rightarrow> (bytes list \<times> body_part_reader \<times> 's) res" where
  "bp_read_chunk_calls ex p s [] = Ret ([], p, s)"
| "bp_read_chunk_calls ex p s (n # ns) =
     (case bp_read_chunk ex p s n of
        Ret (c, p', s') \<Rightarrow>
          (case bp_read_chunk_calls ex p' s' ns of
             Ret (cs, p'', s'') \<Rightarrow> Ret (c # cs, p'', s'')
           | Raise e \<Rightarrow> Raise e
           | OutOfFuel \<Rightarrow> OutOfFuel)
      | Raise e \<Rightarrow> Raise e
      | OutOfFuel \<Rightarrow> OutOfFuel)"

fun bp_readline_calls ::
  "'s ext \<Rightarrow> body_part_reader \<Rightarrow> 's \<Rightarrow> nat \<Rightarrow> (bytes list \<times> body_part_reader \<times> 's) res" where
  "bp_readline_calls ex p s 0 = Ret ([], p, s)"
| "bp_readline_calls ex p s (Suc k) =
     (case bp_readline ex p s of
        Ret (l, p', s') \<Rightarrow>
          (case bp_readline_calls ex p' s' k of
             Ret (ls, p'', s'') \<Rightarrow> Ret (l # ls, p'', s'')
           | Raise e \<Rightarrow> Raise e
           | OutOfFuel \<Rightarrow> OutOfFuel)
      | Raise e \<Rightarrow> Raise e
      | OutOfFuel \<Rightarrow> OutOfFuel)"

text \<open>The headers a part was built from, and the two components of
  \<^verbatim>\<open>parse_mimetype(headers.get(CONTENT_TYPE, ''))\<close> that \<^verbatim>\<open>_get_part_reader\<close> and
  \<^verbatim>\<open>_get_boundary\<close> look at.\<close>

fun part_headers :: "part \<Rightarrow> headers" where
  "part_headers (BodyPart p) = bp_headers p"
| "part_headers (Multipart m) = mr_headers m"

definition media_type :: "'s ext \<Rightarrow> headers \<Rightarrow> string" where
  "media_type ex hdrs =
     fst (parse_mimetype ex (case headers_get hdrs CONTENT_TYPE of None \<Rightarrow> [] | Some v \<Rightarrow> v))"

definition boundary_param :: "'s ext \<Rightarrow> headers \<Rightarrow> string option" where
  "boundary_param ex hdrs =
     map_of (snd (parse_mimetype ex (case headers_get hdrs CONTENT_TYPE of None \<Rightarrow> [] | Some v \<Rightarrow> v)))
       ''boundary''"

text \<open>
  A caller that takes every part of a body in turn: it calls \<^verbatim>\<open>next()\<close>, reads a
  \<^verbatim>\<open>BodyPartReader\<close> with \<^verbatim>\<open>read()\<close> and walks through a nested reader in the same way,
  until \<^verbatim>\<open>next()\<close> returns no part. It returns what it saw, in order.
\<close>

datatype yield = Leaf headers bytes | Nested headers "yield list"

fun read_all ::
  "nat \<Rightarrow> 's ext \<Rightarrow> multipart_reader \<Rightarrow> 's \<Rightarrow> (yield list \<times> multipart_reader \<times> 's) res" where
  "read_all 0 ex r s = OutOfFuel"
| "read_all (Suc n) ex r s =
     (case mr_next n ex r s of
        Ret (None, r', s') \<Rightarrow> Ret ([], r', s')
      | Ret (Some (BodyPart p), r', s') \<Rightarrow>
          (case bp_read n ex p s' False of
             Ret (data, p', s'') \<Rightarrow>
               (case read_all n ex (set_last_part r' (Some (BodyPart p'))) s'' of
                  Ret (ys, rf, sf) \<Rightarrow> Ret (Leaf (bp_headers p) data # ys, rf, sf)
                | Raise e \<Rightarrow> Raise e
                | OutOfFuel \<Rightarrow> OutOfFuel)
           | Raise e \<Rightarrow> Raise e
           | OutOfFuel \<Rightarrow> OutOfFuel)
      | Ret (Some (Multipart m), r', s') \<Rightarrow>
          (case read_all n ex m s' of
             Ret (sub, m', s'') \<Rightarrow>
               (case read_all n ex (set_last_part r' (Some (Multipart m'))) s'' of
                  Ret (ys, rf, sf) \<Rightarrow> Ret (Nested (mr_headers m) sub # ys, rf, sf)
                | Raise e \<Rightarrow> Raise e
                | OutOfFuel \<Rightarrow> OutOfFuel)
           | Raise e \<Rightarrow> Raise e
           | OutOfFuel \<Rightarrow> OutOfFuel)
      | Raise e \<Rightarrow> Raise e
      | OutOfFuel \<Rightarrow> OutOfFuel)"

subsection \<open>Well-formed bodies\<close>

text \<open>
  The wire format of the spec (section 6), for a body of parts that are not multipart
  themselves. A part on the wire is its header lines as sent, the headers they parse
  to, and its content: either a sequence of lines, when the part declares no length, or
  the declared number of bytes followed by CRLF. The body is, for each part, the
  delimiter line, the header lines, an empty line and the content, and then the
  terminator line.
\<close>

datatype wire_content = Lines "bytes list" | Sized bytes

record wire_part =
  wp_header_lines :: "bytes list"
  wp_headers :: headers
  wp_content :: wire_content

text \<open>The bytes between the header block of a part and the boundary line that follows
  it, and the payload of the part.\<close>

definition wire_between :: "wire_part \<Rightarrow> bytes" where
  "wire_between wp = (case wp_content wp of Lines ls \<Rightarrow> concat ls | Sized d \<Rightarrow> d @ CRLF)"

definition wire_payload :: "wire_part \<Rightarrow> bytes" where
  "wire_payload wp = (case wp_content wp of Lines ls \<Rightarrow> concat ls | Sized d \<Rightarrow> d)"

fun encode_body :: "bytes \<Rightarrow> wire_part list \<Rightarrow> bytes" where
  "encode_body B [] = B @ ''--'' @ CRLF"
| "encode_body B (wp # wps) =
     B @ CRLF @ concat (wp_header_lines wp) @ CRLF @ wire_between wp @ encode_body B wps"

text \<open>The first line of an encoded body, and the rest of it.\<close>

definition first_line :: "bytes \<Rightarrow> wire_part list \<Rightarrow> bytes" where
  "first_line B wps = (if wps = [] then B @ ''--'' @ CRLF else B @ CRLF)"

fun after_first :: "bytes \<Rightarrow> wire_part list \<Rightarrow> bytes" where
  "after_first B [] = []"
| "after_first B (wp # wps) =
     concat (wp_header_lines wp) @ CRLF @ wire_between wp @ encode_body B wps"

text \<open>A line as \<^verbatim>\<open>readline()\<close> delivers it before the end of the stream: it ends with its
  only LF.\<close>

fun is_line :: "bytes \<Rightarrow> bool" where
  "is_line [] = False"
| "is_line (c # cs) = (if c = CHR 0x0A then cs = [] else is_line cs)"

text \<open>What \<^verbatim>\<open>BodyPartReader.readline\<close> takes for a boundary line.\<close>

definition is_boundary_line :: "bytes \<Rightarrow> bytes \<Rightarrow> bool" where
  "is_boundary_line B l = (rstrip_chars CRLF l = B \<or> rstrip_chars CRLF l = B @ ''--'')"

definition wf_boundary :: "bytes \<Rightarrow> bool" where
  "wf_boundary B = (B \<noteq> [] \<and> CHR 0x0A \<notin> set B \<and> last B \<notin> set ascii_whitespace)"

definition wf_header_line :: "'s ext \<Rightarrow> bytes \<Rightarrow> bool" where
  "wf_header_line ex l =
     (is_line l \<and> (case decode_strip ex l of None \<Rightarrow> False | Some c \<Rightarrow> c \<noteq> []))"

definition wf_part :: "'s ext \<Rightarrow> bytes \<Rightarrow> wire_part \<Rightarrow> bool" where
  "wf_part ex B wp =
     (list_all (wf_header_line ex) (wp_header_lines wp)
      \<and> parse_headers ex ([] # List.map_filter (decode_strip ex) (wp_header_lines wp) @ [[]])
          = Some (wp_headers wp)
      \<and> media_type ex (wp_headers wp) \<noteq> ''multipart''
      \<and> (case wp_content wp of
           Lines ls \<Rightarrow>
             headers_get (wp_headers wp) CONTENT_LENGTH = None
             \<and> list_all (\<lambda>l. is_line l \<and> \<not> is_boundary_line B l) ls
         | Sized d \<Rightarrow>
             (case headers_get (wp_headers wp) CONTENT_LENGTH of
                None \<Rightarrow> False
              | Some v \<Rightarrow> py_int ex v = Some (int (length d)))))"

definition mem_stream :: "bytes ext \<Rightarrow> bool" where
  "mem_stream ex = (stream_readline ex = mem_readline \<and> stream_read ex = mem_read)"

definition wf_body :: "bytes ext \<Rightarrow> bytes \<Rightarrow> wire_part list \<Rightarrow> bool" where
  "wf_body ex B wps =
     (mem_stream ex \<and> decode_strip ex CRLF = Some [] \<and> wf_boundary B
      \<and> list_all (wf_part ex B) wps)"

text \<open>The \<^verbatim>\<open>BodyPartReader\<close> that \<^verbatim>\<open>next()\<close> builds for a part of a well-formed body.\<close>

definition fresh_part :: "bytes \<Rightarrow> wire_part \<Rightarrow> body_part_reader" where
  "fresh_part B wp =
     \<lparr>bp_headers = wp_headers wp, bp_boundary = B, bp_at_eof = False,
      bp_length = (case wp_content wp of Lines ls \<Rightarrow> None | Sized d \<Rightarrow> Some (int (length d))),
      bp_read_bytes = 0, bp_unread = []\<rparr>"

text \<open>A part on the wire for the examples, well-formed for the boundary \<^verbatim>\<open>--B\<close>.\<close>

definition demo_wire_sized :: wire_part where
  "demo_wire_sized =
     \<lparr>wp_header_lines = [''Content-Length: 5'' @ CRLF],
      wp_headers = [(''Content-Length'', ''5'')],
      wp_content = Sized ''hello''\<rparr>"

text \<open>A reader that stands at a boundary line: it is not at its end, its last part,
  if any, is at its end, and the boundary line is either the next line of the stream,
  nothing being pushed back, or the one line pushed back, by the last part or to the
  reader.\<close>

definition pushed_back :: "multipart_reader \<Rightarrow> bytes list" where
  "pushed_back r =
     mr_unread r @ (case mr_last_part r of None \<Rightarrow> [] | Some pt \<Rightarrow> part_unread pt)"

definition positioned :: "headers \<Rightarrow> bytes \<Rightarrow> bytes \<Rightarrow> bytes \<Rightarrow> multipart_reader \<Rightarrow> bytes \<Rightarrow> bool" where
  "positioned hs B line rest r s =
     (mr_headers r = hs \<and> mr_boundary r = B \<and> \<not> mr_at_eof r
      \<and> (case mr_last_part r of None \<Rightarrow> True | Some pt \<Rightarrow> part_at_eof pt)
      \<and> (pushed_back r = [] \<and> s = line @ rest \<or> pushed_back r = [line] \<and> s = rest))"

text \<open>A number of steps that suffices to read a part.\<close>

definition part_cost :: "wire_part \<Rightarrow> nat" where
  "part_cost wp =
     length (wp_header_lines wp)
     + (case wp_content wp of Lines ls \<Rightarrow> length ls | Sized d \<Rightarrow> length d) + 3"

subsection \<open>Bodies with nested parts, on any stream that delivers\<close>

text \<open>
  What a well-formed body asks of the content stream, for a stream of any kind. The
  function \<open>view\<close> gives the bytes a stream state has still to deliver. A stream
  delivers lines when \<^verbatim>\<open>readline()\<close> returns the bytes up to and including the first LF,
  or all of them when there is none, and leaves the rest. It delivers reads in full
  when \<^verbatim>\<open>read(n)\<close> returns \<open>n\<close> bytes, fewer only at the end of the stream, and leaves the
  rest.
\<close>

definition line_stream :: "'s ext \<Rightarrow> ('s \<Rightarrow> bytes) \<Rightarrow> bool" where
  "line_stream ex view =
     (\<forall>s. mem_readline (view s) =
            (fst (stream_readline ex s), view (snd (stream_readline ex s))))"

definition full_reads :: "'s ext \<Rightarrow> ('s \<Rightarrow> bytes) \<Rightarrow> bool" where
  "full_reads ex view =
     (\<forall>n s. 0 \<le> n \<longrightarrow>
        mem_read n (view s) = (fst (stream_read ex n s), view (snd (stream_read ex n s))))"

text \<open>
  A part on the wire, which may be a multipart body itself: its header lines as sent
  and the headers they parse to, and then the lines of a part that declares no length,
  or the bytes of a part that declares their number, or the boundary and the parts of a
  nested body.
\<close>

datatype wire_node =
    LinesNode (node_header_lines: "bytes list") (node_headers: headers) "bytes list"
  | SizedNode (node_header_lines: "bytes list") (node_headers: headers) bytes
  | MultiNode (node_header_lines: "bytes list") (node_headers: headers) bytes "wire_node list"

text \<open>The bytes between the header block of a part and the boundary line of its parent
  that follows: the lines; the declared bytes and a CRLF; the nested body with its
  terminator line.\<close>

fun node_content :: "wire_node \<Rightarrow> bytes" where
  "node_content (LinesNode hl h ls) = concat ls"
| "node_content (SizedNode hl h d) = d @ CRLF"
| "node_content (MultiNode hl h B' subs) =
     concat (map (\<lambda>w. B' @ CRLF @ concat (node_header_lines w) @ CRLF @ node_content w) subs)
     @ B' @ ''--'' @ CRLF"

definition encode_node :: "bytes \<Rightarrow> wire_node \<Rightarrow> bytes" where
  "encode_node B w = B @ CRLF @ concat (node_header_lines w) @ CRLF @ node_content w"

definition encode_nodes :: "bytes \<Rightarrow> wire_node list \<Rightarrow> bytes" where
  "encode_nodes B ws = concat (map (encode_node B) ws)"

text \<open>The terminator line of the outermost body: the boundary followed by \<^verbatim>\<open>--\<close>, with
  its CRLF, or without it when the stream ends there.\<close>

definition terminator :: "bytes \<Rightarrow> bytes \<Rightarrow> bytes \<Rightarrow> bool" where
  "terminator B tm rest = (tm = B @ ''--'' @ CRLF \<or> tm = B @ ''--'' \<and> rest = [])"

text \<open>The first line of the parts \<open>ws\<close> followed by the terminator line \<open>tm\<close> and \<open>rest\<close>,
  and what follows that line.\<close>

definition lead :: "bytes \<Rightarrow> wire_node list \<Rightarrow> bytes \<Rightarrow> bytes" where
  "lead B ws tm = (if ws = [] then tm else B @ CRLF)"

fun after_lead :: "bytes \<Rightarrow> wire_node list \<Rightarrow> bytes \<Rightarrow> bytes \<Rightarrow> bytes" where
  "after_lead B [] tm rest = rest"
| "after_lead B (w # ws) tm rest =
     concat (node_header_lines w) @ CRLF @ node_content w @ encode_nodes B ws @ tm @ rest"

text \<open>Well-formed parts: the header lines parse to the headers; the media type is
  multipart for a nested body and for no other part; a nested body has its boundary
  from the boundary parameter; no line of a line-bounded part is a boundary line of the
  body the part is in; a length-bounded part declares the number of its bytes.\<close>

definition wf_header :: "'s ext \<Rightarrow> bytes list \<Rightarrow> headers \<Rightarrow> bool" where
  "wf_header ex hl h =
     (list_all (wf_header_line ex) hl
      \<and> parse_headers ex ([] # List.map_filter (decode_strip ex) hl @ [[]]) = Some h)"

fun wf_node :: "'s ext \<Rightarrow> bytes \<Rightarrow> wire_node \<Rightarrow> bool" where
  "wf_node ex B (LinesNode hl h ls) =
     (wf_header ex hl h \<and> media_type ex h \<noteq> ''multipart''
      \<and> headers_get h CONTENT_LENGTH = None
      \<and> list_all (\<lambda>l. is_line l \<and> \<not> is_boundary_line B l) ls)"
| "wf_node ex B (SizedNode hl h d) =
     (wf_header ex hl h \<and> media_type ex h \<noteq> ''multipart''
      \<and> (case headers_get h CONTENT_LENGTH of
            None \<Rightarrow> False
          | Some v \<Rightarrow> py_int ex v = Some (int (length d))))"
| "wf_node ex B (MultiNode hl h B' subs) =
     (wf_header ex hl h \<and> media_type ex h = ''multipart''
      \<and> headers_get h CONTENT_TYPE \<noteq> None
      \<and> (case boundary_param ex h of None \<Rightarrow> False | Some b \<Rightarrow> B' = ''--'' @ b)
      \<and> wf_boundary B' \<and> list_all (wf_node ex B') subs)"

text \<open>Whether some part, at any depth, declares a length.\<close>

fun has_sized :: "wire_node \<Rightarrow> bool" where
  "has_sized (LinesNode hl h ls) = False"
| "has_sized (SizedNode hl h d) = True"
| "has_sized (MultiNode hl h B' subs) = list_ex has_sized subs"

text \<open>A well-formed body on a stream: the stream delivers lines and, if some part
  declares a length, delivers reads in full; the empty line decodes to the empty
  string; the boundary has no LF and does not end in whitespace.\<close>

definition wf_tree :: "'s ext \<Rightarrow> ('s \<Rightarrow> bytes) \<Rightarrow> bytes \<Rightarrow> wire_node list \<Rightarrow> bool" where
  "wf_tree ex view B ws =
     (line_stream ex view \<and> (list_ex has_sized ws \<longrightarrow> full_reads ex view)
      \<and> decode_strip ex CRLF = Some [] \<and> wf_boundary B \<and> list_all (wf_node ex B) ws)"

text \<open>What the caller \<open>read_all\<close> is to see of a part, the reader \<^verbatim>\<open>next()\<close> is to build
  for it, and a number of steps that suffices.\<close>

fun node_yield :: "wire_node \<Rightarrow> yield" where
  "node_yield (LinesNode hl h ls) = Leaf h (concat ls)"
| "node_yield (SizedNode hl h d) = Leaf h d"
| "node_yield (MultiNode hl h B' subs) = Nested h (map node_yield subs)"

fun node_reader :: "bytes \<Rightarrow> wire_node \<Rightarrow> part" where
  "node_reader B (LinesNode hl h ls) =
     BodyPart \<lparr>bp_headers = h, bp_boundary = B, bp_at_eof = False,
               bp_length = None, bp_read_bytes = 0, bp_unread = []\<rparr>"
| "node_reader B (SizedNode hl h d) =
     BodyPart \<lparr>bp_headers = h, bp_boundary = B, bp_at_eof = False,
               bp_length = Some (int (length d)), bp_read_bytes = 0, bp_unread = []\<rparr>"
| "node_reader B (MultiNode hl h B' subs) = Multipart (MultipartReader h B' None False [])"

fun node_cost :: "wire_node \<Rightarrow> nat" where
  "node_cost (LinesNode hl h ls) = length hl + length ls + 3"
| "node_cost (SizedNode hl h d) = length hl + length d + 3"
| "node_cost (MultiNode hl h B' subs) = length hl + 3 + (sum_list (map node_cost subs) + 3)"

definition body_cost :: "wire_node list \<Rightarrow> nat" where
  "body_cost ws = sum_list (map node_cost ws) + 3"

text \<open>What \<^verbatim>\<open>next()\<close> is to yield in front of the parts \<open>ws\<close>, and the bytes the stream
  is to hold then: the content of the first part and all that follows, or what follows
  the terminator line.\<close>

fun next_part :: "bytes \<Rightarrow> wire_node list \<Rightarrow> part option" where
  "next_part B [] = None"
| "next_part B (w # ws) = Some (node_reader B w)"

fun next_view :: "bytes \<Rightarrow> wire_node list \<Rightarrow> bytes \<Rightarrow> bytes \<Rightarrow> bytes" where
  "next_view B [] tm rest = rest"
| "next_view B (w # ws) tm rest = node_content w @ encode_nodes B ws @ tm @ rest"

text \<open>
  A part that \<^verbatim>\<open>next()\<close> yielded and the caller left unfinished, with the stream as the
  caller left it; \<open>after\<close> are the bytes that follow the part. A line-bounded part
  after some \<^verbatim>\<open>readline\<close> calls and a length-bounded part after \<^verbatim>\<open>read_chunk\<close> calls of
  non-negative sizes, neither at its end; a nested reader that the caller took some of
  the parts from, each read to its end, or none.
\<close>

definition abandoned ::
  "'s ext \<Rightarrow> ('s \<Rightarrow> bytes) \<Rightarrow> bytes \<Rightarrow> wire_node \<Rightarrow> bytes \<Rightarrow> part \<Rightarrow> 's \<Rightarrow> bool" where
  "abandoned ex view B w after lp s =
     (case w of
        LinesNode hl h ls \<Rightarrow>
          (\<exists>k out p0 s0 p1. node_reader B w = BodyPart p0 \<and> view s0 = node_content w @ after
             \<and> bp_readline_calls ex p0 s0 k = Ret (out, p1, s)
             \<and> \<not> bp_at_eof p1 \<and> lp = BodyPart p1)
      | SizedNode hl h d \<Rightarrow>
          (\<exists>ns out p0 s0 p1. node_reader B w = BodyPart p0 \<and> view s0 = node_content w @ after
             \<and> list_all (\<lambda>k. 0 \<le> k) ns \<and> bp_read_chunk_calls ex p0 s0 ns = Ret (out, p1, s)
             \<and> \<not> bp_at_eof p1 \<and> lp = BodyPart p1)
      | MultiNode hl h B' subs \<Rightarrow>
          (\<exists>subs1 subs2 m1. subs = subs1 @ subs2 \<and> lp = Multipart m1
             \<and> positioned h B' (lead B' subs2 (B' @ ''--'' @ CRLF))
                  (after_lead B' subs2 (B' @ ''--'' @ CRLF) after) m1 (view s)))"

text \<open>For the examples: a body of a line-bounded part, a nested body of one
  length-bounded part, and a length-bounded part, with its bytes on the wire, the
  terminator without CRLF; and a stream that delivers at most two bytes for each
  \<^verbatim>\<open>read(n)\<close>, as a stream does whose bytes arrive a few at a time.\<close>

definition demo_nested_node :: wire_node where
  "demo_nested_node =
     MultiNode [''Content-Type: multipart/mixed; boundary=IN'' @ CRLF] demo_nested_headers ''--IN''
       [SizedNode [''Content-Length: 2'' @ CRLF] [(''Content-Length'', ''2'')] ''ab'']"

definition demo_sized_node :: wire_node where
  "demo_sized_node =
     SizedNode [''Content-Length: 5'' @ CRLF] [(''Content-Length'', ''5'')] ''hello''"

definition demo_tree :: "wire_node list" where
  "demo_tree =
     [LinesNode [''Content-Type: text/plain'' @ CRLF] [(''Content-Type'', ''text/plain'')]
        [''first'' @ CRLF, ''second'' @ CRLF],
      demo_nested_node, demo_sized_node]"

definition demo_tree_body :: bytes where
  "demo_tree_body =
     ''--B'' @ CRLF @ ''Content-Type: text/plain'' @ CRLF @ CRLF
       @ ''first'' @ CRLF @ ''second'' @ CRLF
     @ ''--B'' @ CRLF @ ''Content-Type: multipart/mixed; boundary=IN'' @ CRLF @ CRLF
       @ ''--IN'' @ CRLF @ ''Content-Length: 2'' @ CRLF @ CRLF @ ''ab'' @ CRLF
       @ ''--IN--'' @ CRLF
     @ ''--B'' @ CRLF @ ''Content-Length: 5'' @ CRLF @ CRLF @ ''hello'' @ CRLF
     @ ''--B--''"

text \<open>The same stream once the nested reader has been yielded: it stands at the first
  boundary line of the nested body.\<close>

definition demo_nested_stream :: bytes where
  "demo_nested_stream =
     ''--IN'' @ CRLF @ ''Content-Length: 2'' @ CRLF @ CRLF @ ''ab'' @ CRLF
       @ ''--IN--'' @ CRLF
     @ ''--B'' @ CRLF @ ''Content-Length: 5'' @ CRLF @ CRLF @ ''hello'' @ CRLF
     @ ''--B--''"

definition short_read :: "int \<Rightarrow> bytes \<Rightarrow> bytes \<times> bytes" where
  "short_read n s = mem_read (min n 2) s"

definition short_ext :: "bytes ext" where
  "short_ext =
     \<lparr>stream_readline = mem_readline, stream_read = short_read,
      decode_strip = (\<lambda>b. Some (demo_strip b)), parse_headers = demo_parse_headers,
      parse_mimetype = demo_parse_mimetype, py_int = demo_int, zlib_decompress = demo_zlib\<rparr>"

section \<open>Properties\<close>

subsection \<open>Length-bounded reading\<close>

lemma read_chunk_step:
  assumes "\<not> bp_at_eof p" "bp_length p = Some len"
  shows "bp_read_chunk ex p s n =
     Ret (fst (stream_read ex (min n (len - bp_read_bytes p)) s),
          p\<lparr>bp_read_bytes := bp_read_bytes p + min n (len - bp_read_bytes p),
            bp_at_eof := (bp_read_bytes p + min n (len - bp_read_bytes p) = len)\<rparr>,
          snd (stream_read ex (min n (len - bp_read_bytes p)) s))"
  using assms by (auto simp: bp_read_chunk_def Let_def split: prod.splits)

lemma read_chunk_calls_at_eof:
  "bp_at_eof p \<Longrightarrow> bp_read_chunk_calls ex p s ns = Ret (replicate (length ns) [], p, s)"
  by (induction ns) (auto simp: bp_read_chunk_def)

lemma read_chunk_calls_reach_eof:
  assumes "bp_length p = Some len" "ns \<noteq> []" "sum_list ns = len - bp_read_bytes p"
  shows "\<exists>cs p' s'. bp_read_chunk_calls ex p s ns = Ret (cs, p', s') \<and> bp_at_eof p'"
  using assms
proof (induction ns arbitrary: p s)
  case Nil
  then show ?case by simp
next
  case (Cons n ns)
  show ?case
  proof (cases "bp_at_eof p")
    case True
    then show ?thesis by (simp add: read_chunk_calls_at_eof del: bp_read_chunk_calls.simps)
  next
    case False
    let ?c = "min n (len - bp_read_bytes p)"
    let ?p = "p\<lparr>bp_read_bytes := bp_read_bytes p + ?c, bp_at_eof := (bp_read_bytes p + ?c = len)\<rparr>"
    let ?s = "snd (stream_read ex ?c s)"
    have step: "bp_read_chunk ex p s n = Ret (fst (stream_read ex ?c s), ?p, ?s)"
      using False Cons.prems(1) by (rule read_chunk_step)
    show ?thesis
    proof (cases "bp_at_eof ?p")
      case True
      then show ?thesis using step by (simp add: read_chunk_calls_at_eof)
    next
      case nf: False
      then have le: "n \<le> len - bp_read_bytes p" and ne: "bp_read_bytes p + n \<noteq> len"
        by (auto simp: min_def split: if_splits)
      have "ns \<noteq> []" using Cons.prems(3) ne by auto
      moreover have "bp_length ?p = Some len" using Cons.prems(1) by simp
      moreover have "sum_list ns = len - bp_read_bytes ?p"
        using Cons.prems(3) le by (simp add: min_def)
      ultimately obtain cs p' s' where
        "bp_read_chunk_calls ex ?p ?s ns = Ret (cs, p', s')" "bp_at_eof p'"
        using Cons.IH by blast
      then show ?thesis using step by simp
    qed
  qed
qed

text \<open>
  Claim C10. On a length-bounded part that is not at its end, \<^verbatim>\<open>read_chunk(n)\<close> asks the
  stream for \<open>min n remaining\<close> bytes and adds that number, not the number of bytes the
  stream delivered, to the count of consumed bytes; the part is at its end exactly when
  the count reaches the declared length. So, whatever the stream delivers, calls whose
  requested sizes sum to the length still to be read (the declared length, for a new
  part) leave the part at its end.
\<close>

theorem read_chunk_counts_requested_bytes:
  assumes "bp_length p = Some len"
  shows "(\<not> bp_at_eof p \<longrightarrow>
           bp_read_chunk ex p s n =
             Ret (fst (stream_read ex (min n (len - bp_read_bytes p)) s),
                  p\<lparr>bp_read_bytes := bp_read_bytes p + min n (len - bp_read_bytes p),
                    bp_at_eof := (bp_read_bytes p + min n (len - bp_read_bytes p) = len)\<rparr>,
                  snd (stream_read ex (min n (len - bp_read_bytes p)) s)))
       \<and> (ns \<noteq> [] \<and> sum_list ns = len - bp_read_bytes p \<longrightarrow>
           (\<exists>cs p' s'. bp_read_chunk_calls ex p s ns = Ret (cs, p', s') \<and> bp_at_eof p'))"
  using assms read_chunk_step [of p len ex s n] read_chunk_calls_reach_eof [of p len ns ex s]
  by blast

text \<open>The stream holds two bytes where five are declared and requested: the call
  delivers the two bytes, counts five and ends the part.\<close>

theorem read_chunk_counts_requested_bytes_witness:
  "bp_read_chunk demo_ext
     \<lparr>bp_headers = [(''Content-Length'', ''5'')], bp_boundary = ''--B'', bp_at_eof = False,
      bp_length = Some 5, bp_read_bytes = 0, bp_unread = []\<rparr> ''ab'' 5 =
   Ret (''ab'',
     \<lparr>bp_headers = [(''Content-Length'', ''5'')], bp_boundary = ''--B'', bp_at_eof = True,
      bp_length = Some 5, bp_read_bytes = 5, bp_unread = []\<rparr>, [])
   \<and> (\<exists>cs p' s'. bp_read_chunk_calls demo_ext
     \<lparr>bp_headers = [(''Content-Length'', ''5'')], bp_boundary = ''--B'', bp_at_eof = False,
      bp_length = Some 5, bp_read_bytes = 0, bp_unread = []\<rparr> ''ab'' [2, 3] = Ret (cs, p', s')
        \<and> bp_at_eof p')"
  using read_chunk_counts_requested_bytes
    [of "\<lparr>bp_headers = [(''Content-Length'', ''5'')], bp_boundary = ''--B'', bp_at_eof = False,
      bp_length = Some 5, bp_read_bytes = 0, bp_unread = []\<rparr>" 5 demo_ext "''ab''" 5 "[2, 3]"]
  by (simp add: demo_ext_def mem_read_def)

subsection \<open>Reading by lines\<close>

lemma rstrip_chars_decomp: "\<exists>t. xs = rstrip_chars cs xs @ t"
proof -
  have "rev xs = takeWhile (\<lambda>c. c \<in> set cs) (rev xs) @ dropWhile (\<lambda>c. c \<in> set cs) (rev xs)"
    by simp
  then have "xs = rev (dropWhile (\<lambda>c. c \<in> set cs) (rev xs)) @ rev (takeWhile (\<lambda>c. c \<in> set cs) (rev xs))"
    by (metis rev_append rev_rev_ident)
  then show ?thesis unfolding rstrip_chars_def by blast
qed

lemma rstrip_chars_startswith: "rstrip_chars cs line = b @ t \<Longrightarrow> startswith line b"
  using rstrip_chars_decomp [of line cs] by (auto simp: startswith_def)

lemma bp_readline_active:
  assumes "\<not> bp_at_eof p" "stream_readline ex s = (line, s')"
  shows "bp_readline ex p s =
     (if rstrip_chars CRLF line = bp_boundary p \<or> rstrip_chars CRLF line = bp_boundary p @ ''--''
      then Ret ([], p\<lparr>bp_at_eof := True, bp_unread := bp_unread p @ [line]\<rparr>, s')
      else Ret (line, p, s'))"
proof -
  have "rstrip_chars CRLF line = bp_boundary p \<Longrightarrow> startswith line (bp_boundary p)"
    using rstrip_chars_startswith [of CRLF line "bp_boundary p" "[]"] by simp
  moreover have "rstrip_chars CRLF line = bp_boundary p @ ''--'' \<Longrightarrow> startswith line (bp_boundary p)"
    by (rule rstrip_chars_startswith)
  ultimately show ?thesis using assms by (auto simp: bp_readline_def Let_def)
qed

text \<open>
  Claim C5. On a part that is not at its end (in particular on a line-bounded one),
  \<^verbatim>\<open>readline()\<close> takes one line from the stream. If the line, its trailing CR and LF
  bytes stripped, is the boundary or the boundary followed by \<^verbatim>\<open>--\<close>, the call returns
  the empty bytes, the part is at its end and the line as read is appended to the
  pushback buffer of the part; the owning reader then moves it to its own buffer
  (\<^verbatim>\<open>_maybe_release_last_part\<close>) and its next \<^verbatim>\<open>_readline\<close> returns that line and leaves
  the stream as it is. Every other line is returned as read and the part is unchanged.
\<close>

theorem readline_returns_line_or_stops_at_boundary:
  assumes "\<not> bp_at_eof p" "stream_readline ex s = (line, s')"
  shows "(if rstrip_chars CRLF line = bp_boundary p \<or> rstrip_chars CRLF line = bp_boundary p @ ''--''
      then bp_readline ex p s = Ret ([], p\<lparr>bp_at_eof := True, bp_unread := bp_unread p @ [line]\<rparr>, s')
        \<and> mr_maybe_release_last_part n ex
             (set_last_part r (Some (BodyPart (p\<lparr>bp_at_eof := True, bp_unread := bp_unread p @ [line]\<rparr>)))) s' =
            Ret (MultipartReader (mr_headers r) (mr_boundary r) None (mr_at_eof r)
                   (mr_unread r @ bp_unread p @ [line]), s')
        \<and> mr_readline ex (MultipartReader (mr_headers r) (mr_boundary r) None (mr_at_eof r)
                   (mr_unread r @ bp_unread p @ [line])) s' =
            (line, MultipartReader (mr_headers r) (mr_boundary r) None (mr_at_eof r)
                   (mr_unread r @ bp_unread p), s')
      else bp_readline ex p s = Ret (line, p, s'))"
  using bp_readline_active [OF assms]
  by (simp add: set_last_part_def mr_readline_def set_unread_def butlast_append)

text \<open>A delimiter line is held back and recovered; a line that only starts with the
  boundary is content.\<close>

theorem readline_returns_line_or_stops_at_boundary_witness:
  "bp_readline demo_ext demo_lines_reader (''--B'' @ CRLF @ ''x'') =
     Ret ([], demo_lines_reader\<lparr>bp_at_eof := True, bp_unread := [''--B'' @ CRLF]\<rparr>, ''x'')
   \<and> mr_readline demo_ext (MultipartReader [] ''--B'' None False [''--B'' @ CRLF]) ''x'' =
       (''--B'' @ CRLF, MultipartReader [] ''--B'' None False [], ''x'')
   \<and> bp_readline demo_ext demo_lines_reader (''--Bx'' @ CRLF @ ''x'') =
     Ret (''--Bx'' @ CRLF, demo_lines_reader, ''x'')"
  using readline_returns_line_or_stops_at_boundary [of demo_lines_reader demo_ext "''--B'' @ CRLF @ ''x''" "''--B'' @ CRLF" "''x''" 0 demo_reader]
    readline_returns_line_or_stops_at_boundary [of demo_lines_reader demo_ext "''--Bx'' @ CRLF @ ''x''" "''--Bx'' @ CRLF" "''x''" 0 demo_reader]
  by (simp add: demo_lines_reader_def demo_reader_def demo_ext_def CRLF_def rstrip_chars_def)

subsection \<open>The mode of a part\<close>

text \<open>
  Claim C9, as the code has it. \<^verbatim>\<open>read_chunk\<close> on a line-bounded part that is not at its
  end fails its assertion; on a part that is at its end it returns the empty bytes
  whatever the mode. \<^verbatim>\<open>readline\<close> has no check of the mode: it raises nothing, and on a
  length-bounded part it does what it does on a line-bounded part with the same fields.
\<close>

theorem read_chunk_checks_mode_readline_does_not:
  "(bp_length p = None \<and> \<not> bp_at_eof p \<longrightarrow> bp_read_chunk ex p s n = Raise AssertionError)
   \<and> (bp_at_eof p \<longrightarrow> bp_read_chunk ex p s n = Ret ([], p, s))
   \<and> bp_readline ex p s \<noteq> Raise e
   \<and> bp_readline ex (p\<lparr>bp_length := l\<rparr>) s =
       (case bp_readline ex p s of
          Ret (line, p', s') \<Rightarrow> Ret (line, p'\<lparr>bp_length := l\<rparr>, s')
        | Raise e \<Rightarrow> Raise e
        | OutOfFuel \<Rightarrow> OutOfFuel)"
  by (auto simp: bp_read_chunk_def bp_readline_def Let_def split: prod.splits)

theorem read_chunk_checks_mode_readline_does_not_witness:
  "bp_read_chunk demo_ext demo_lines_reader ''abc'' 3 = Raise AssertionError
   \<and> bp_read_chunk demo_ext (demo_lines_reader\<lparr>bp_at_eof := True\<rparr>) ''abc'' 3 =
       Ret ([], demo_lines_reader\<lparr>bp_at_eof := True\<rparr>, ''abc'')"
  using read_chunk_checks_mode_readline_does_not [of demo_lines_reader demo_ext "''abc''" 3]
    read_chunk_checks_mode_readline_does_not [of "demo_lines_reader\<lparr>bp_at_eof := True\<rparr>" demo_ext "''abc''" 3]
  by (simp add: demo_lines_reader_def)

text \<open>The claim as stated fails: \<^verbatim>\<open>readline()\<close> on a part with \<^verbatim>\<open>Content-Length: 5\<close>
  returns the line.\<close>

theorem readline_on_length_bounded_part_counterexample:
  "bp_length demo_sized_reader = Some 5
   \<and> bp_readline demo_ext demo_sized_reader (''hello'' @ CRLF)
   = Ret (''hello'' @ CRLF, demo_sized_reader, [])"
  by (simp add: bp_readline_def demo_sized_reader_def demo_ext_def CRLF_def startswith_def)

subsection \<open>Content decoding\<close>

text \<open>
  Claim C7, as the code has it. \<^verbatim>\<open>decode\<close> returns the data unchanged when the part has
  no Content-Encoding header and also when the value of the header is empty; for
  \<^verbatim>\<open>gzip\<close> it returns \<^verbatim>\<open>zlib.decompress(data, 16 + MAX_WBITS)\<close>, for \<^verbatim>\<open>deflate\<close> it returns
  \<^verbatim>\<open>zlib.decompress(data, -MAX_WBITS)\<close> (raw deflate); every other non-empty value raises
  AttributeError.
\<close>

theorem decode_dispatches_on_content_encoding:
  "(headers_get (bp_headers p) CONTENT_ENCODING = None \<longrightarrow> bp_decode ex p data = Ret data)
   \<and> (headers_get (bp_headers p) CONTENT_ENCODING = Some [] \<longrightarrow> bp_decode ex p data = Ret data)
   \<and> (headers_get (bp_headers p) CONTENT_ENCODING = Some ''gzip'' \<longrightarrow>
        bp_decode ex p data =
          (case zlib_decompress ex data (16 + MAX_WBITS) of None \<Rightarrow> Raise ZlibError | Some d \<Rightarrow> Ret d))
   \<and> (headers_get (bp_headers p) CONTENT_ENCODING = Some ''deflate'' \<longrightarrow>
        bp_decode ex p data =
          (case zlib_decompress ex data (- MAX_WBITS) of None \<Rightarrow> Raise ZlibError | Some d \<Rightarrow> Ret d))
   \<and> (\<forall>enc. headers_get (bp_headers p) CONTENT_ENCODING = Some enc \<and> enc \<noteq> []
          \<and> enc \<noteq> ''gzip'' \<and> enc \<noteq> ''deflate'' \<longrightarrow>
        bp_decode ex p data = Raise (AttributeError (''decode_'' @ enc)))"
  by (simp add: bp_decode_def bp_decode_gzip_def bp_decode_deflate_def)

theorem decode_dispatches_on_content_encoding_witness:
  "bp_decode demo_ext (demo_lines_reader\<lparr>bp_headers := [(''Content-Encoding'', ''br'')]\<rparr>) ''abc'' =
     Raise (AttributeError ''decode_br'')
   \<and> bp_decode demo_ext (demo_lines_reader\<lparr>bp_headers := [(''Content-Encoding'', ''gzip'')]\<rparr>) ''GZ:abc'' =
     Ret ''abc''
   \<and> bp_decode demo_ext demo_lines_reader ''abc'' = Ret ''abc''"
  using decode_dispatches_on_content_encoding [of "demo_lines_reader\<lparr>bp_headers := [(''Content-Encoding'', ''br'')]\<rparr>" demo_ext "''abc''"]
    decode_dispatches_on_content_encoding [of "demo_lines_reader\<lparr>bp_headers := [(''Content-Encoding'', ''gzip'')]\<rparr>" demo_ext "''GZ:abc''"]
    decode_dispatches_on_content_encoding [of demo_lines_reader demo_ext "''abc''"]
  by (simp add: demo_lines_reader_def headers_get_def CONTENT_ENCODING_def demo_ext_def demo_zlib_def
      MAX_WBITS_def)

text \<open>The claim as stated fails: a Content-Encoding header with an empty value is
  declared, is none of the two supported values, and the data passes unchanged.\<close>

theorem decode_empty_encoding_counterexample:
  "headers_get [(''Content-Encoding'', [])] CONTENT_ENCODING = Some []
   \<and> bp_decode demo_ext \<lparr>bp_headers = [(''Content-Encoding'', [])], bp_boundary = ''--B'',
        bp_at_eof = False, bp_length = None, bp_read_bytes = 0, bp_unread = []\<rparr> ''abc'' = Ret ''abc''"
  by (simp add: bp_decode_def headers_get_def CONTENT_ENCODING_def)

subsection \<open>Boundary lines\<close>

lemma mr_maybe_release_keeps:
  "mr_maybe_release_last_part n ex r s = Ret (r1, s1) \<Longrightarrow>
     mr_boundary r1 = mr_boundary r \<and> mr_at_eof r1 = mr_at_eof r \<and> mr_headers r1 = mr_headers r"
  by (auto split: option.splits res.splits if_splits)

lemma mr_readline_keeps:
  "mr_readline ex r s = (line, r', s') \<Longrightarrow>
     mr_boundary r' = mr_boundary r \<and> mr_at_eof r' = mr_at_eof r \<and> mr_headers r' = mr_headers r
     \<and> mr_last_part r' = mr_last_part r"
  by (auto simp: mr_readline_def set_unread_def split: if_splits prod.splits)

lemma mr_read_boundary_keeps:
  "mr_read_boundary ex r s = Ret (r', s') \<Longrightarrow> mr_boundary r' = mr_boundary r"
  by (auto simp: mr_read_boundary_def mr_readline_def set_unread_def set_at_eof_def Let_def
      split: if_splits prod.splits)

text \<open>
  Claim C3, as the code has it. \<^verbatim>\<open>next()\<close> on a reader that is not at its end, once the
  last part is released, takes a line (a pushed-back one first) and strips all its
  trailing ASCII whitespace (\<^verbatim>\<open>rstrip()\<close>: the line terminator, and spaces and tabs
  before it). If what is left is neither the boundary nor the boundary followed by
  \<^verbatim>\<open>--\<close>, \<^verbatim>\<open>next()\<close> raises ValueError.
\<close>

theorem next_rejects_non_boundary_line:
  assumes "\<not> mr_at_eof r"
    and "mr_maybe_release_last_part n ex r s = Ret (r1, s1)"
    and "mr_readline ex r1 s1 = (line, r2, s2)"
    and "rstrip line \<noteq> mr_boundary r" and "rstrip line \<noteq> mr_boundary r @ ''--''"
  shows "mr_next (Suc n) ex r s = Raise (ValueError_boundary (rstrip line) (mr_boundary r))"
proof -
  have b: "mr_boundary r2 = mr_boundary r"
    using mr_maybe_release_keeps [OF assms(2)] mr_readline_keeps [OF assms(3)] by simp
  have "mr_read_boundary ex r1 s1 = Raise (ValueError_boundary (rstrip line) (mr_boundary r))"
    using assms(3-5) b by (simp add: mr_read_boundary_def)
  then show ?thesis using assms(1,2) by (simp del: mr_maybe_release_last_part.simps)
qed

theorem next_rejects_non_boundary_line_witness:
  "mr_next (Suc 0) demo_ext demo_reader (''--WRONG'' @ CRLF) =
     Raise (ValueError_boundary ''--WRONG'' ''--B'')"
  using next_rejects_non_boundary_line [of demo_reader 0 demo_ext "''--WRONG'' @ CRLF" demo_reader "''--WRONG'' @ CRLF"
      "''--WRONG'' @ CRLF" demo_reader "[]"]
  by (simp add: demo_reader_def mr_readline_def demo_ext_def CRLF_def rstrip_def rstrip_chars_def
      ascii_whitespace_def)

text \<open>The claim as stated fails: the delimiter followed by a space is, its line
  terminator stripped, neither the boundary nor the terminator, and \<^verbatim>\<open>next()\<close> accepts
  it and yields the part.\<close>

theorem next_accepts_padded_boundary_counterexample:
  "rstrip_chars CRLF (''--B '' @ CRLF) \<noteq> ''--B'' \<and> rstrip_chars CRLF (''--B '' @ CRLF) \<noteq> ''--B--''
   \<and> mr_next 3 demo_ext demo_reader
        (''--B '' @ CRLF @ CRLF @ ''x'' @ CRLF @ ''--B--'' @ CRLF)
     = Ret (Some (BodyPart demo_lines_reader),
        MultipartReader [] ''--B'' (Some (BodyPart demo_lines_reader)) False [],
        ''x'' @ CRLF @ ''--B--'' @ CRLF)"
  by code_simp

subsection \<open>Reading keeps the headers\<close>

lemma bp_readline_headers:
  "bp_readline ex p s = Ret (l, p', s') \<Longrightarrow> bp_headers p' = bp_headers p"
  by (auto simp: bp_readline_def Let_def split: if_splits prod.splits)

lemma bp_read_chunk_headers:
  "bp_read_chunk ex p s n = Ret (c, p', s') \<Longrightarrow> bp_headers p' = bp_headers p"
  by (auto simp: bp_read_chunk_def Let_def split: if_splits prod.splits option.splits)

lemma bp_read_lines_headers:
  "bp_read_lines n ex p s d = Ret (d', p', s') \<Longrightarrow> bp_headers p' = bp_headers p"
proof (induction n arbitrary: p s d)
  case 0
  then show ?case by (simp split: if_splits)
next
  case (Suc n)
  then show ?case
    by (auto split: if_splits res.splits dest: bp_readline_headers)
qed

lemma bp_read_chunks_headers:
  "bp_read_chunks n ex p s d = Ret (d', p', s') \<Longrightarrow> bp_headers p' = bp_headers p"
proof (induction n arbitrary: p s d)
  case 0
  then show ?case by (simp split: if_splits)
next
  case (Suc n)
  then show ?case
    by (auto split: if_splits res.splits dest: bp_read_chunk_headers)
qed

lemma bp_read_headers:
  assumes "bp_read n ex p s False = Ret (d, p', s')"
  shows "bp_headers p' = bp_headers p"
  using assms
  by (auto simp: bp_read_def split: if_splits res.splits prod.splits
      dest: bp_read_lines_headers bp_read_chunks_headers)

lemma bp_read_decode:
  assumes "\<not> bp_at_eof p" "bp_read n ex p s False = Ret (raw, p', s')"
  shows "bp_read n ex p s True =
     (case bp_decode ex p' raw of Ret d \<Rightarrow> Ret (d, p', s') | Raise e \<Rightarrow> Raise e | OutOfFuel \<Rightarrow> OutOfFuel)"
  using assms by (auto simp: bp_read_def split: if_splits res.splits prod.splits)

subsection \<open>Reading a part from a stream held in memory\<close>

lemma is_line_readline: "is_line l \<Longrightarrow> mem_readline (l @ rest) = (l, rest)"
  by (induction l) (auto split: if_splits)

lemma is_line_crlf: "CHR 0x0A \<notin> set b \<Longrightarrow> is_line (b @ CRLF)"
  by (induction b) (auto simp: CRLF_def)

lemma rstrip_chars_suffix:
  assumes "xs \<noteq> []" "last xs \<notin> set cs" "set t \<subseteq> set cs"
  shows "rstrip_chars cs (xs @ t) = xs"
proof -
  have "dropWhile (\<lambda>c. c \<in> set cs) (rev t @ rev xs) = dropWhile (\<lambda>c. c \<in> set cs) (rev xs)"
    by (rule dropWhile_append2) (use assms(3) in auto)
  moreover have "dropWhile (\<lambda>c. c \<in> set cs) (rev xs) = rev xs"
    using assms(1,2) by (cases xs rule: rev_cases) auto
  ultimately show ?thesis by (simp add: rstrip_chars_def)
qed

lemma wf_boundary_lines:
  assumes "wf_boundary B"
  shows "rstrip (B @ CRLF) = B" "rstrip (B @ ''--'' @ CRLF) = B @ ''--''"
    "rstrip_chars CRLF (B @ CRLF) = B" "rstrip_chars CRLF (B @ ''--'' @ CRLF) = B @ ''--''"
    "is_line (B @ CRLF)" "is_line (B @ ''--'' @ CRLF)"
proof -
  from assms have ne: "B \<noteq> []" and nl: "CHR 0x0A \<notin> set B" and lw: "last B \<notin> set ascii_whitespace"
    by (auto simp: wf_boundary_def)
  show "rstrip (B @ CRLF) = B"
    unfolding rstrip_def by (rule rstrip_chars_suffix [OF ne lw]) (simp add: CRLF_def ascii_whitespace_def)
  have "rstrip_chars ascii_whitespace ((B @ ''--'') @ CRLF) = B @ ''--''"
    by (rule rstrip_chars_suffix) (simp_all add: CRLF_def ascii_whitespace_def)
  then show "rstrip (B @ ''--'' @ CRLF) = B @ ''--''" by (simp add: rstrip_def)
  have lc: "last B \<notin> set CRLF" using lw by (auto simp: CRLF_def ascii_whitespace_def)
  show "rstrip_chars CRLF (B @ CRLF) = B"
    by (rule rstrip_chars_suffix [OF ne lc]) simp
  have "rstrip_chars CRLF ((B @ ''--'') @ CRLF) = B @ ''--''"
    by (rule rstrip_chars_suffix) (simp_all add: CRLF_def)
  then show "rstrip_chars CRLF (B @ ''--'' @ CRLF) = B @ ''--''" by simp
  show "is_line (B @ CRLF)" using nl by (rule is_line_crlf)
  have "is_line ((B @ ''--'') @ CRLF)" by (rule is_line_crlf) (use nl in simp)
  then show "is_line (B @ ''--'' @ CRLF)" by simp
qed

lemma first_line_facts:
  assumes "wf_boundary B"
  shows "is_line (first_line B wps)"
    "rstrip (first_line B wps) = (if wps = [] then B @ ''--'' else B)"
    "is_boundary_line B (first_line B wps)"
    "encode_body B wps = first_line B wps @ after_first B wps"
  using wf_boundary_lines [OF assms]
  by (cases wps; simp add: first_line_def is_boundary_line_def)+

lemma is_line_CRLF: "is_line CRLF"
  by (simp add: CRLF_def)

lemma read_lines_ok:
  assumes "mem_stream ex" "is_line bl" "is_boundary_line B bl"
  shows "list_all (\<lambda>l. is_line l \<and> \<not> is_boundary_line B l) ls \<Longrightarrow> length ls < n \<Longrightarrow>
     \<not> bp_at_eof p \<Longrightarrow> bp_boundary p = B \<Longrightarrow>
     bp_read_lines n ex p (concat ls @ bl @ rest) data =
       Ret (data @ concat ls, p\<lparr>bp_at_eof := True, bp_unread := bp_unread p @ [bl]\<rparr>, rest)"
proof (induction ls arbitrary: n data)
  case Nil
  then obtain m where n: "n = Suc m" by (cases n) auto
  have "stream_readline ex (bl @ rest) = (bl, rest)"
    using assms(1) is_line_readline [OF assms(2)] by (simp add: mem_stream_def)
  from bp_readline_active [OF Nil.prems(3) this] assms(3) Nil.prems(4)
  have "bp_readline ex p (bl @ rest) =
      Ret ([], p\<lparr>bp_at_eof := True, bp_unread := bp_unread p @ [bl]\<rparr>, rest)"
    by (simp add: is_boundary_line_def)
  then show ?case using n Nil.prems(3) by (cases m) simp_all
next
  case (Cons l ls)
  then obtain m where n: "n = Suc m" and m: "length ls < m" by (cases n) auto
  from Cons.prems(1) have l: "is_line l" "\<not> is_boundary_line B l"
    and rest: "list_all (\<lambda>l. is_line l \<and> \<not> is_boundary_line B l) ls" by simp_all
  have "stream_readline ex (l @ concat ls @ bl @ rest) = (l, concat ls @ bl @ rest)"
    using assms(1) is_line_readline [OF l(1)] by (simp add: mem_stream_def)
  from bp_readline_active [OF Cons.prems(3) this] l(2) Cons.prems(4)
  have "bp_readline ex p (l @ concat ls @ bl @ rest) = Ret (l, p, concat ls @ bl @ rest)"
    by (simp add: is_boundary_line_def)
  then show ?case
    using n Cons.prems(3) Cons.IH [OF rest m Cons.prems(3,4), of "data @ l"] by simp
qed

lemma release_lines_is_read:
  "bp_release_lines n ex p s =
     (case bp_read_lines n ex p s data of
        Ret (d, p', s') \<Rightarrow> Ret (p', s') | Raise e \<Rightarrow> Raise e | OutOfFuel \<Rightarrow> OutOfFuel)"
proof (induction n arbitrary: p s data)
  case 0
  then show ?case by simp
next
  case (Suc n)
  show ?case
  proof (cases "bp_readline ex p s")
    case (Ret x)
    then show ?thesis using Suc [of "fst (snd x)" "snd (snd x)" "data @ fst x"]
      by (cases x) simp
  qed simp_all
qed

lemma release_chunks_is_read:
  "bp_release_chunks n ex p s =
     (case bp_read_chunks n ex p s data of
        Ret (d, p', s') \<Rightarrow> Ret (p', s') | Raise e \<Rightarrow> Raise e | OutOfFuel \<Rightarrow> OutOfFuel)"
proof (induction n arbitrary: p s data)
  case 0
  then show ?case by simp
next
  case (Suc n)
  show ?case
  proof (cases "bp_read_chunk ex p s chunk_size")
    case (Ret x)
    then show ?thesis using Suc [of "fst (snd x)" "snd (snd x)" "data @ fst x"]
      by (cases x) simp
  qed simp_all
qed

lemma release_is_read:
  "bp_release n ex p s =
     (case bp_read n ex p s False of
        Ret (d, p', s') \<Rightarrow> Ret (p', s') | Raise e \<Rightarrow> Raise e | OutOfFuel \<Rightarrow> OutOfFuel)"
  by (simp add: bp_release_def bp_read_def release_lines_is_read [of n ex p s "[]"]
      release_chunks_is_read [of n ex p s "[]"] split: res.splits prod.splits)

lemma read_chunks_ok:
  assumes "mem_stream ex"
  shows "\<not> bp_at_eof p \<Longrightarrow> bp_length p = Some len \<Longrightarrow> len - bp_read_bytes p = int (length d) \<Longrightarrow>
     length d < n \<Longrightarrow>
     bp_read_chunks n ex p (d @ rest) data =
       Ret (data @ d, p\<lparr>bp_read_bytes := len, bp_at_eof := True\<rparr>, rest)"
proof (induction n arbitrary: p d data)
  case 0
  then show ?case by simp
next
  case (Suc n)
  let ?c = "min chunk_size (int (length d))"
  let ?k = "nat ?c"
  have c0: "\<not> ?c < 0" by (simp add: chunk_size_def)
  have kd: "?k \<le> length d" by (simp add: chunk_size_def)
  have "mem_read ?c (d @ rest) = (take ?k (d @ rest), drop ?k (d @ rest))"
    unfolding mem_read_def using c0 by (simp only: if_False)
  then have rd: "stream_read ex ?c (d @ rest) = (take ?k d, drop ?k d @ rest)"
    using assms kd by (simp add: mem_stream_def)
  have step: "bp_read_chunk ex p (d @ rest) chunk_size =
      Ret (take ?k d, p\<lparr>bp_read_bytes := bp_read_bytes p + ?c,
             bp_at_eof := (bp_read_bytes p + ?c = len)\<rparr>, drop ?k d @ rest)"
    using read_chunk_step [OF Suc.prems(1,2), of ex "d @ rest" chunk_size] Suc.prems(3) rd by simp
  show ?case
  proof (cases "?c = int (length d)")
    case True
    then have "?k = length d" by simp
    moreover have "bp_read_bytes p + ?c = len" using True Suc.prems(3) by simp
    ultimately show ?thesis using step Suc.prems(1) by (cases n) simp_all
  next
    case False
    then have ck: "?c = chunk_size" and lt: "chunk_size < int (length d)"
      by (auto simp: min_def split: if_splits)
    let ?p = "p\<lparr>bp_read_bytes := bp_read_bytes p + chunk_size\<rparr>"
    have ne: "bp_read_bytes p + chunk_size \<noteq> len" using lt Suc.prems(3) by simp
    have step': "bp_read_chunk ex p (d @ rest) chunk_size = Ret (take ?k d, ?p, drop ?k d @ rest)"
      using step ck ne Suc.prems(1) by simp
    have "bp_read_chunks n ex ?p (drop ?k d @ rest) (data @ take ?k d) =
        Ret ((data @ take ?k d) @ drop ?k d, ?p\<lparr>bp_read_bytes := len, bp_at_eof := True\<rparr>, rest)"
    proof (rule Suc.IH)
      show "\<not> bp_at_eof ?p" using Suc.prems(1) by simp
      show "bp_length ?p = Some len" using Suc.prems(2) by simp
      show "len - bp_read_bytes ?p = int (length (drop ?k d))"
        using Suc.prems(3) ck lt by (simp add: chunk_size_def)
      show "length (drop ?k d) < n" using Suc.prems(4) ck by (simp add: chunk_size_def)
    qed
    then show ?thesis using step' Suc.prems(1) by simp
  qed
qed

lemma read_inside_lines:
  assumes "mem_stream ex" "is_line bl" "is_boundary_line B bl"
    "list_all (\<lambda>l. is_line l \<and> \<not> is_boundary_line B l) ls" "length ls < n"
    "\<not> bp_at_eof p" "bp_boundary p = B" "bp_length p = None"
  shows "bp_read n ex p (concat ls @ bl @ rest) False =
       Ret (concat ls, p\<lparr>bp_at_eof := True, bp_unread := bp_unread p @ [bl]\<rparr>, rest)"
  using read_lines_ok [OF assms(1-7), of rest "[]"] assms(6,8) by (simp add: bp_read_def)

lemma read_inside_sized:
  assumes "mem_stream ex" "\<not> bp_at_eof p" "bp_length p = Some len"
    "len - bp_read_bytes p = int (length d)" "length d < n"
  shows "bp_read n ex p (d @ CRLF @ rest) False =
       Ret (d, p\<lparr>bp_read_bytes := len, bp_at_eof := True\<rparr>, rest)"
proof -
  have "stream_readline ex (CRLF @ rest) = (CRLF, rest)"
    using assms(1) is_line_readline [OF is_line_CRLF] by (simp add: mem_stream_def)
  then show ?thesis
    using read_chunks_ok [OF assms, of "CRLF @ rest" "[]"] assms(2,3) by (simp add: bp_read_def)
qed

lemma read_fresh_part:
  assumes wf: "wf_body ex B (wp # wps)" and fuel: "part_cost wp \<le> n"
  shows "\<exists>p'. bp_read n ex (fresh_part B wp) (wire_between wp @ encode_body B wps @ rest) False =
           Ret (wire_payload wp, p', (if bp_unread p' = [] then encode_body B wps @ rest
                                      else after_first B wps @ rest))
         \<and> bp_at_eof p'
         \<and> (bp_unread p' = [] \<or> bp_unread p' = [first_line B wps])"
proof -
  from wf have ms: "mem_stream ex" and wb: "wf_boundary B" and wp: "wf_part ex B wp"
    by (auto simp: wf_body_def)
  note fl = first_line_facts [OF wb, of wps]
  show ?thesis
  proof (cases "wp_content wp")
    case (Lines ls)
    then have ls: "list_all (\<lambda>l. is_line l \<and> \<not> is_boundary_line B l) ls"
      using wp by (simp add: wf_part_def)
    have n: "length ls < n" using fuel Lines by (simp add: part_cost_def)
    from read_inside_lines [OF ms fl(1) fl(3) ls n, of "fresh_part B wp" "after_first B wps @ rest"]
    show ?thesis using Lines fl(4)
      by (simp add: fresh_part_def wire_between_def wire_payload_def)
  next
    case (Sized d)
    have n: "length d < n" using fuel Sized by (simp add: part_cost_def)
    from read_inside_sized [OF ms, of "fresh_part B wp" "int (length d)" d n
        "encode_body B wps @ rest"]
    show ?thesis using Sized n
      by (simp add: fresh_part_def wire_between_def wire_payload_def)
  qed
qed

subsection \<open>Streams of any kind\<close>

text \<open>The steps of a reader on a stream that delivers lines, and reads in full, told by
  the bytes the stream has still to deliver: reading a header block, reading the
  boundary line a reader stands at, and \<^verbatim>\<open>next()\<close> at a delimiter line and at the
  terminator line.\<close>


lemma no_lf_readline: "CHR 0x0A \<notin> set l \<Longrightarrow> mem_readline l = (l, [])"
  by (induction l) auto

lemma readline_step:
  assumes "line_stream ex view" "view s = l @ rest" "mem_readline (l @ rest) = (l, rest)"
  obtains s' where "stream_readline ex s = (l, s')" "view s' = rest"
proof -
  from assms(1) have "mem_readline (view s) =
      (fst (stream_readline ex s), view (snd (stream_readline ex s)))"
    by (simp add: line_stream_def)
  then have "fst (stream_readline ex s) = l" "view (snd (stream_readline ex s)) = rest"
    using assms(2,3) by simp_all
  then show ?thesis using that [of "snd (stream_readline ex s)"] by (metis prod.collapse)
qed

lemma read_step:
  assumes "full_reads ex view" "0 \<le> n" "view s = d @ rest" "nat n \<le> length d"
  obtains s' where "stream_read ex n s = (take (nat n) d, s')" "view s' = drop (nat n) d @ rest"
proof -
  from assms(1,2) have "mem_read n (view s) =
      (fst (stream_read ex n s), view (snd (stream_read ex n s)))"
    by (simp add: full_reads_def)
  moreover have "mem_read n (d @ rest) = (take (nat n) d, drop (nat n) d @ rest)"
    using assms(2,4) by (simp add: mem_read_def)
  ultimately have "fst (stream_read ex n s) = take (nat n) d"
    "view (snd (stream_read ex n s)) = drop (nat n) d @ rest"
    using assms(3) by simp_all
  then show ?thesis using that [of "snd (stream_read ex n s)"] by (metis prod.collapse)
qed

lemma lead_facts:
  assumes "wf_boundary B" "terminator B tm rest"
  shows "mem_readline (lead B ws tm @ after_lead B ws tm rest) =
           (lead B ws tm, after_lead B ws tm rest)"
    and "rstrip (lead B ws tm) = (if ws = [] then B @ ''--'' else B)"
    and "is_boundary_line B (lead B ws tm)"
    and "encode_nodes B ws @ tm @ rest = lead B ws tm @ after_lead B ws tm rest"
proof -
  note bl = wf_boundary_lines [OF assms(1)]
  from assms(1) have ne: "B \<noteq> []" and nl: "CHR 0x0A \<notin> set B" and lw: "last B \<notin> set ascii_whitespace"
    by (auto simp: wf_boundary_def)
  have t1: "mem_readline (tm @ rest) = (tm, rest)"
  proof (cases "tm = B @ ''--'' @ CRLF")
    case True
    then show ?thesis using is_line_readline [OF bl(6)] by simp
  next
    case False
    then have "tm = B @ ''--''" "rest = []" using assms(2) by (auto simp: terminator_def)
    then show ?thesis using no_lf_readline [of "B @ ''--''"] nl by simp
  qed
  have s0: "rstrip_chars cs ((B @ ''--'') @ []) = B @ ''--''" if "CHR ''-'' \<notin> set cs" for cs
    by (rule rstrip_chars_suffix) (use that in simp_all)
  have t2: "rstrip tm = B @ ''--''"
    using assms(2) bl(2) s0 [of ascii_whitespace]
    by (auto simp: terminator_def rstrip_def ascii_whitespace_def)
  have t3: "rstrip_chars CRLF tm = B @ ''--''"
    using assms(2) bl(4) s0 [of CRLF] by (auto simp: terminator_def CRLF_def)
  show "mem_readline (lead B ws tm @ after_lead B ws tm rest) =
           (lead B ws tm, after_lead B ws tm rest)"
    using t1 is_line_readline [OF bl(5)] by (cases ws) (simp_all add: lead_def)
  show "rstrip (lead B ws tm) = (if ws = [] then B @ ''--'' else B)"
    using t2 bl(1) by (simp add: lead_def)
  show "is_boundary_line B (lead B ws tm)"
    using t3 bl(3) by (simp add: lead_def is_boundary_line_def)
  show "encode_nodes B ws @ tm @ rest = lead B ws tm @ after_lead B ws tm rest"
    by (cases ws) (simp_all add: lead_def encode_nodes_def encode_node_def)
qed

lemma node_content_multi:
  "node_content (MultiNode hl h B' subs) = encode_nodes B' subs @ B' @ ''--'' @ CRLF"
  by (simp add: encode_nodes_def encode_node_def [abs_def])

lemma header_lines_read:
  assumes "line_stream ex view" "decode_strip ex CRLF = Some []"
  shows "list_all (wf_header_line ex) hls \<Longrightarrow> length hls < n \<Longrightarrow>
     view s = concat hls @ CRLF @ rest \<Longrightarrow>
     \<exists>s'. mr_read_header_lines n ex s acc =
             Ret (acc @ List.map_filter (decode_strip ex) hls @ [[]], s') \<and> view s' = rest"
proof (induction hls arbitrary: n acc s)
  case Nil
  then obtain m where n: "n = Suc m" by (cases n) auto
  from Nil.prems(3) have v: "view s = CRLF @ rest" by simp
  obtain s' where "stream_readline ex s = (CRLF, s')" "view s' = rest"
    by (rule readline_step [OF assms(1) v is_line_readline [OF is_line_CRLF]])
  then show ?case using n assms(2) by (simp add: List.map_filter_simps)
next
  case (Cons hl hls)
  then obtain m where n: "n = Suc m" and m: "length hls < m" by (cases n) auto
  from Cons.prems(1) have h: "wf_header_line ex hl" and rest: "list_all (wf_header_line ex) hls"
    by simp_all
  from h obtain c where l: "is_line hl" and c: "decode_strip ex hl = Some c" "c \<noteq> []"
    by (auto simp: wf_header_line_def split: option.splits)
  from Cons.prems(3) have v: "view s = hl @ (concat hls @ CRLF @ rest)" by simp
  obtain s1 where s1: "stream_readline ex s = (hl, s1)" "view s1 = concat hls @ CRLF @ rest"
    by (rule readline_step [OF assms(1) v is_line_readline [OF l]])
  from Cons.IH [OF rest m s1(2), of "acc @ [c]"] obtain s' where
    "mr_read_header_lines m ex s1 (acc @ [c]) =
       Ret ((acc @ [c]) @ List.map_filter (decode_strip ex) hls @ [[]], s')" "view s' = rest"
    by blast
  then show ?case using n c s1(1) by (simp add: List.map_filter_simps)
qed

lemma fetch_part_at_header:
  assumes "line_stream ex view" "decode_strip ex CRLF = Some []" "wf_header ex hl hdrs"
    "mr_get_part_reader ex r hdrs = Ret pt" "length hl < n"
    "view s = concat hl @ CRLF @ rest"
  shows "\<exists>s'. mr_fetch_next_part n ex r s = Ret (pt, s') \<and> view s' = rest"
proof -
  from assms(3) have hl: "list_all (wf_header_line ex) hl"
    and ph: "parse_headers ex ([] # List.map_filter (decode_strip ex) hl @ [[]]) = Some hdrs"
    by (auto simp: wf_header_def)
  from header_lines_read [OF assms(1,2) hl assms(5,6), of "[[]]"] obtain s' where
    "mr_read_header_lines n ex s [[]] = Ret ([[]] @ List.map_filter (decode_strip ex) hl @ [[]], s')"
    "view s' = rest" by blast
  then show ?thesis using ph assms(4)
    by (simp add: mr_fetch_next_part_def mr_read_headers_def)
qed

lemma boundary_step:
  assumes "line_stream ex view" "mem_readline (line @ rest) = (line, rest)"
    "positioned hs B line rest r (view s)"
  shows "\<exists>r1 s1 s2. mr_maybe_release_last_part m ex r s = Ret (r1, s1)
           \<and> mr_readline ex r1 s1 = (line, MultipartReader hs B None False [], s2)
           \<and> view s2 = rest"
proof -
  obtain lp u where r: "r = MultipartReader hs B lp False u"
    using assms(3) by (cases r) (auto simp: positioned_def)
  let ?u = "u @ (case lp of None \<Rightarrow> [] | Some pt \<Rightarrow> part_unread pt)"
  have eof: "(case lp of None \<Rightarrow> True | Some pt \<Rightarrow> part_at_eof pt)"
    using assms(3) r by (simp add: positioned_def)
  have mr: "mr_maybe_release_last_part m ex r s = Ret (MultipartReader hs B None False ?u, s)"
    using r eof by (cases lp) simp_all
  have pb: "?u = [] \<and> view s = line @ rest \<or> ?u = [line] \<and> view s = rest"
    using assms(3) r by (simp add: positioned_def pushed_back_def)
  show ?thesis
  proof (cases "?u = []")
    case True
    then have v: "view s = line @ rest" using pb by auto
    obtain s2 where "stream_readline ex s = (line, s2)" "view s2 = rest"
      by (rule readline_step [OF assms(1) v assms(2)])
    then have "mr_readline ex (MultipartReader hs B None False ?u) s =
        (line, MultipartReader hs B None False [], s2)"
      using True by (simp add: mr_readline_def)
    then show ?thesis using mr \<open>view s2 = rest\<close> by blast
  next
    case False
    then have u: "?u = [line]" and v: "view s = rest" using pb by auto
    have "mr_readline ex (MultipartReader hs B None False ?u) s =
        (line, MultipartReader hs B None False [], s)"
      unfolding u by (simp add: mr_readline_def set_unread_def)
    then show ?thesis using mr v by blast
  qed
qed

lemma next_at_delimiter:
  assumes ls: "line_stream ex view" and ds: "decode_strip ex CRLF = Some []"
    and wb: "wf_boundary B"
    and pos: "positioned hs B (B @ CRLF) (concat hl @ CRLF @ rest) r (view s)"
    and wh: "wf_header ex hl hdrs"
    and gp: "mr_get_part_reader ex (MultipartReader hs B None False []) hdrs = Ret pt"
    and fuel: "Suc (length hl) < n"
  shows "\<exists>s'. mr_next n ex r s = Ret (Some pt, MultipartReader hs B (Some pt) False [], s')
           \<and> view s' = rest"
proof -
  from fuel obtain m where n: "n = Suc m" and m: "length hl < m" by (cases n) auto
  note bl = wf_boundary_lines [OF wb]
  have ne: "\<not> mr_at_eof r" using pos by (simp add: positioned_def)
  from boundary_step [OF ls is_line_readline [OF bl(5)] pos, of m] obtain r1 s1 s2 where
    mr: "mr_maybe_release_last_part m ex r s = Ret (r1, s1)"
    and rl: "mr_readline ex r1 s1 = (B @ CRLF, MultipartReader hs B None False [], s2)"
    and v: "view s2 = concat hl @ CRLF @ rest"
    by blast
  have rb: "mr_read_boundary ex r1 s1 = Ret (MultipartReader hs B None False [], s2)"
    using rl bl(1) by (simp add: mr_read_boundary_def)
  from fetch_part_at_header [OF ls ds wh gp m v] obtain s' where
    "mr_fetch_next_part m ex (MultipartReader hs B None False []) s2 = Ret (pt, s')"
    "view s' = rest" by blast
  then show ?thesis using n ne mr rb
    by (simp add: set_last_part_def del: mr_maybe_release_last_part.simps)
qed

lemma next_at_terminator:
  assumes ls: "line_stream ex view"
    and rd: "mem_readline (tm @ rest) = (tm, rest)" and rs: "rstrip tm = B @ ''--''"
    and pos: "positioned hs B tm rest r (view s)"
    and fuel: "0 < n"
  shows "\<exists>s'. mr_next n ex r s = Ret (None, MultipartReader hs B None True [], s')
           \<and> view s' = rest"
proof -
  from fuel obtain m where n: "n = Suc m" by (cases n) auto
  have ne: "\<not> mr_at_eof r" using pos by (simp add: positioned_def)
  from boundary_step [OF ls rd pos, of m] obtain r1 s1 s2 where
    mr: "mr_maybe_release_last_part m ex r s = Ret (r1, s1)"
    and rl: "mr_readline ex r1 s1 = (tm, MultipartReader hs B None False [], s2)"
    and v: "view s2 = rest"
    by blast
  have "mr_read_boundary ex r1 s1 = Ret (MultipartReader hs B None True [], s2)"
    using rl rs by (simp add: mr_read_boundary_def set_at_eof_def)
  then show ?thesis using n ne mr v
    by (simp del: mr_maybe_release_last_part.simps)
qed

subsection \<open>The kind of a part\<close>

lemma get_part_reader_multipart:
  assumes "media_type ex hdrs = ''multipart''" "headers_get hdrs CONTENT_TYPE \<noteq> None"
    "boundary_param ex hdrs = Some b"
  shows "mr_get_part_reader ex r hdrs = Ret (Multipart (MultipartReader hdrs (''--'' @ b) None False []))"
  using assms
  by (auto simp: mr_get_part_reader_def media_type_def boundary_param_def MultipartReader_init_def
      mr_get_boundary_def Let_def split: prod.splits option.splits)

lemma get_part_reader_body:
  assumes "media_type ex hdrs \<noteq> ''multipart''"
    "headers_get hdrs CONTENT_LENGTH = None \<and> len = None
     \<or> (\<exists>v. headers_get hdrs CONTENT_LENGTH = Some v \<and> py_int ex v \<noteq> None \<and> len = py_int ex v)"
  shows "mr_get_part_reader ex r hdrs =
     Ret (BodyPart \<lparr>bp_headers = hdrs, bp_boundary = mr_boundary r, bp_at_eof = False,
            bp_length = len, bp_read_bytes = 0, bp_unread = []\<rparr>)"
  using assms
  by (auto simp: mr_get_part_reader_def media_type_def BodyPartReader_init_def
      Let_def split: prod.splits option.splits)

lemma get_part_reader_kind:
  assumes "mr_get_part_reader ex r hdrs = Ret pt"
  shows "part_headers pt = hdrs \<and>
     (if media_type ex hdrs = ''multipart''
      then \<exists>b. boundary_param ex hdrs = Some b
             \<and> pt = Multipart (MultipartReader hdrs (''--'' @ b) None False [])
      else \<exists>len. pt = BodyPart \<lparr>bp_headers = hdrs, bp_boundary = mr_boundary r, bp_at_eof = False,
            bp_length = len, bp_read_bytes = 0, bp_unread = []\<rparr>)"
  using assms
  by (auto simp: mr_get_part_reader_def media_type_def boundary_param_def MultipartReader_init_def
      mr_get_boundary_def BodyPartReader_init_def Let_def
      split: prod.splits option.splits if_splits res.splits)

lemma mr_next_yields:
  assumes "mr_next n ex r s = Ret (Some pt, r', s')"
  shows "\<exists>r2 hdrs. mr_boundary r2 = mr_boundary r \<and> mr_get_part_reader ex r2 hdrs = Ret pt
           \<and> mr_last_part r' = Some pt \<and> mr_boundary r' = mr_boundary r"
proof (cases n)
  case 0
  then show ?thesis using assms by (simp split: if_splits)
next
  case (Suc m)
  from assms Suc obtain r1 s1 r2 s2 s3 where
    a: "mr_maybe_release_last_part m ex r s = Ret (r1, s1)"
    and b: "mr_read_boundary ex r1 s1 = Ret (r2, s2)"
    and c: "mr_fetch_next_part m ex r2 s2 = Ret (pt, s3)"
    and d: "r' = set_last_part r2 (Some pt)"
    by (auto simp del: mr_maybe_release_last_part.simps split: if_splits res.splits)
  from c obtain hdrs where e: "mr_get_part_reader ex r2 hdrs = Ret pt"
    by (auto simp: mr_fetch_next_part_def split: res.splits)
  have "mr_boundary r2 = mr_boundary r"
    using mr_maybe_release_keeps [OF a] mr_read_boundary_keeps [OF b] by simp
  then show ?thesis using d e by (auto simp: set_last_part_def)
qed

lemma demo_streams: "line_stream demo_ext (\<lambda>s. s)" "full_reads demo_ext (\<lambda>s. s)"
  by (simp_all add: line_stream_def full_reads_def demo_ext_def)

text \<open>
  Claim C6. Whatever part \<^verbatim>\<open>next()\<close> yields, the reader keeps it as its last part, and its
  kind follows the media type of the part's own Content-Type header: when that is
  \<^verbatim>\<open>multipart\<close>, the part is a new \<^verbatim>\<open>MultipartReader\<close> over the part's headers whose
  boundary is \<^verbatim>\<open>--\<close> followed by the boundary parameter of these headers; otherwise it is
  a new \<^verbatim>\<open>BodyPartReader\<close> with the boundary of the reader that yields it. And
  \<^verbatim>\<open>next()\<close> does yield it, from the header block at its position: where a reader with
  headers \<open>hs\<close> and boundary \<open>B\<close> stands at a delimiter line that the header lines \<open>hl\<close>
  and an empty line follow, on a stream of any kind that delivers lines, and \<open>hl\<close> parse
  to the headers \<open>hdrs\<close>, then \<^verbatim>\<open>next()\<close>, given two steps more than \<open>hl\<close> has lines,
  returns the part built from \<open>hdrs\<close>, whatever \<open>hs\<close> are, and leaves the stream behind
  the empty line: the nested reader over \<open>hdrs\<close> when their media type is \<^verbatim>\<open>multipart\<close>
  and they have a boundary parameter, and otherwise the \<^verbatim>\<open>BodyPartReader\<close> with the
  headers \<open>hdrs\<close>, the boundary \<open>B\<close> and the length that \<^verbatim>\<open>int\<close> reads from the
  Content-Length of \<open>hdrs\<close>, or none without that header. The constructors by
  themselves: \<^verbatim>\<open>_get_part_reader\<close> builds a multipart part when the Content-Type has a
  boundary parameter, another part when it has no Content-Length or one that \<^verbatim>\<open>int\<close>
  accepts. Readers store no stream: a nested reader works on the stream that is passed on
  to it, which is the one its parent reads.
\<close>

theorem next_dispatches_on_media_type:
  "(mr_next n ex r s = Ret (Some pt, r', s') \<longrightarrow>
      mr_last_part r' = Some pt \<and>
      (if media_type ex (part_headers pt) = ''multipart''
       then \<exists>b. boundary_param ex (part_headers pt) = Some b
             \<and> pt = Multipart (MultipartReader (part_headers pt) (''--'' @ b) None False [])
       else \<exists>len. pt = BodyPart \<lparr>bp_headers = part_headers pt, bp_boundary = mr_boundary r,
             bp_at_eof = False, bp_length = len, bp_read_bytes = 0, bp_unread = []\<rparr>))
   \<and> (line_stream ex view \<and> decode_strip ex CRLF = Some [] \<and> wf_boundary B
        \<and> positioned hs B (B @ CRLF) (concat hl @ CRLF @ rest) r0 (view s0)
        \<and> wf_header ex hl hdrs \<and> Suc (length hl) < k \<longrightarrow>
      (media_type ex hdrs = ''multipart'' \<and> headers_get hdrs CONTENT_TYPE \<noteq> None
         \<and> boundary_param ex hdrs = Some b \<longrightarrow>
       (\<exists>s1. mr_next k ex r0 s0 =
               Ret (Some (Multipart (MultipartReader hdrs (''--'' @ b) None False [])),
                    MultipartReader hs B
                      (Some (Multipart (MultipartReader hdrs (''--'' @ b) None False []))) False [],
                    s1)
            \<and> view s1 = rest))
      \<and> (media_type ex hdrs \<noteq> ''multipart''
         \<and> (headers_get hdrs CONTENT_LENGTH = None \<and> len = None
            \<or> (\<exists>v. headers_get hdrs CONTENT_LENGTH = Some v \<and> py_int ex v \<noteq> None
                    \<and> len = py_int ex v)) \<longrightarrow>
       (\<exists>s1. mr_next k ex r0 s0 =
               Ret (Some (BodyPart \<lparr>bp_headers = hdrs, bp_boundary = B, bp_at_eof = False,
                            bp_length = len, bp_read_bytes = 0, bp_unread = []\<rparr>),
                    MultipartReader hs B
                      (Some (BodyPart \<lparr>bp_headers = hdrs, bp_boundary = B, bp_at_eof = False,
                            bp_length = len, bp_read_bytes = 0, bp_unread = []\<rparr>)) False [],
                    s1)
            \<and> view s1 = rest)))
   \<and> (media_type ex hdrs = ''multipart'' \<and> headers_get hdrs CONTENT_TYPE \<noteq> None
        \<and> boundary_param ex hdrs = Some b \<longrightarrow>
      mr_get_part_reader ex r hdrs = Ret (Multipart (MultipartReader hdrs (''--'' @ b) None False [])))
   \<and> (media_type ex hdrs \<noteq> ''multipart'' \<and> headers_get hdrs CONTENT_LENGTH = None \<longrightarrow>
      mr_get_part_reader ex r hdrs =
        Ret (BodyPart \<lparr>bp_headers = hdrs, bp_boundary = mr_boundary r, bp_at_eof = False,
            bp_length = None, bp_read_bytes = 0, bp_unread = []\<rparr>))
   \<and> (media_type ex hdrs \<noteq> ''multipart'' \<and> headers_get hdrs CONTENT_LENGTH = Some v
        \<and> py_int ex v = Some j \<longrightarrow>
      mr_get_part_reader ex r hdrs =
        Ret (BodyPart \<lparr>bp_headers = hdrs, bp_boundary = mr_boundary r, bp_at_eof = False,
            bp_length = Some j, bp_read_bytes = 0, bp_unread = []\<rparr>))"
proof -
  have a: "mr_next n ex r s = Ret (Some pt, r', s') \<longrightarrow>
      mr_last_part r' = Some pt \<and>
      (if media_type ex (part_headers pt) = ''multipart''
       then \<exists>b. boundary_param ex (part_headers pt) = Some b
             \<and> pt = Multipart (MultipartReader (part_headers pt) (''--'' @ b) None False [])
       else \<exists>len. pt = BodyPart \<lparr>bp_headers = part_headers pt, bp_boundary = mr_boundary r,
             bp_at_eof = False, bp_length = len, bp_read_bytes = 0, bp_unread = []\<rparr>)"
  proof
    assume "mr_next n ex r s = Ret (Some pt, r', s')"
    from mr_next_yields [OF this] obtain r2 hdrs where
      x: "mr_boundary r2 = mr_boundary r" "mr_get_part_reader ex r2 hdrs = Ret pt"
         "mr_last_part r' = Some pt" by blast
    from get_part_reader_kind [OF x(2)] x(1,3) show "mr_last_part r' = Some pt \<and>
      (if media_type ex (part_headers pt) = ''multipart''
       then \<exists>b. boundary_param ex (part_headers pt) = Some b
             \<and> pt = Multipart (MultipartReader (part_headers pt) (''--'' @ b) None False [])
       else \<exists>len. pt = BodyPart \<lparr>bp_headers = part_headers pt, bp_boundary = mr_boundary r,
             bp_at_eof = False, bp_length = len, bp_read_bytes = 0, bp_unread = []\<rparr>)" by auto
  qed
  have b: "line_stream ex view \<and> decode_strip ex CRLF = Some [] \<and> wf_boundary B
        \<and> positioned hs B (B @ CRLF) (concat hl @ CRLF @ rest) r0 (view s0)
        \<and> wf_header ex hl hdrs \<and> Suc (length hl) < k \<longrightarrow>
      (media_type ex hdrs = ''multipart'' \<and> headers_get hdrs CONTENT_TYPE \<noteq> None
         \<and> boundary_param ex hdrs = Some b \<longrightarrow>
       (\<exists>s1. mr_next k ex r0 s0 =
               Ret (Some (Multipart (MultipartReader hdrs (''--'' @ b) None False [])),
                    MultipartReader hs B
                      (Some (Multipart (MultipartReader hdrs (''--'' @ b) None False []))) False [],
                    s1)
            \<and> view s1 = rest))
      \<and> (media_type ex hdrs \<noteq> ''multipart''
         \<and> (headers_get hdrs CONTENT_LENGTH = None \<and> len = None
            \<or> (\<exists>v. headers_get hdrs CONTENT_LENGTH = Some v \<and> py_int ex v \<noteq> None
                    \<and> len = py_int ex v)) \<longrightarrow>
       (\<exists>s1. mr_next k ex r0 s0 =
               Ret (Some (BodyPart \<lparr>bp_headers = hdrs, bp_boundary = B, bp_at_eof = False,
                            bp_length = len, bp_read_bytes = 0, bp_unread = []\<rparr>),
                    MultipartReader hs B
                      (Some (BodyPart \<lparr>bp_headers = hdrs, bp_boundary = B, bp_at_eof = False,
                            bp_length = len, bp_read_bytes = 0, bp_unread = []\<rparr>)) False [],
                    s1)
            \<and> view s1 = rest))"
  proof (intro impI conjI)
    assume h: "line_stream ex view \<and> decode_strip ex CRLF = Some [] \<and> wf_boundary B
        \<and> positioned hs B (B @ CRLF) (concat hl @ CRLF @ rest) r0 (view s0)
        \<and> wf_header ex hl hdrs \<and> Suc (length hl) < k"
    then have ls: "line_stream ex view" and ds: "decode_strip ex CRLF = Some []"
      and wb: "wf_boundary B"
      and pos: "positioned hs B (B @ CRLF) (concat hl @ CRLF @ rest) r0 (view s0)"
      and wh: "wf_header ex hl hdrs" and fuel: "Suc (length hl) < k" by simp_all
    {
      assume m: "media_type ex hdrs = ''multipart'' \<and> headers_get hdrs CONTENT_TYPE \<noteq> None
         \<and> boundary_param ex hdrs = Some b"
      then have "mr_get_part_reader ex (MultipartReader hs B None False []) hdrs =
          Ret (Multipart (MultipartReader hdrs (''--'' @ b) None False []))"
        using get_part_reader_multipart [of ex hdrs b] by simp
      from next_at_delimiter [OF ls ds wb pos wh this fuel]
      show "\<exists>s1. mr_next k ex r0 s0 =
               Ret (Some (Multipart (MultipartReader hdrs (''--'' @ b) None False [])),
                    MultipartReader hs B
                      (Some (Multipart (MultipartReader hdrs (''--'' @ b) None False []))) False [],
                    s1)
            \<and> view s1 = rest" .
    }
    {
      assume m: "media_type ex hdrs \<noteq> ''multipart''
         \<and> (headers_get hdrs CONTENT_LENGTH = None \<and> len = None
            \<or> (\<exists>v. headers_get hdrs CONTENT_LENGTH = Some v \<and> py_int ex v \<noteq> None
                    \<and> len = py_int ex v))"
      then have "mr_get_part_reader ex (MultipartReader hs B None False []) hdrs =
          Ret (BodyPart \<lparr>bp_headers = hdrs, bp_boundary = B, bp_at_eof = False,
                            bp_length = len, bp_read_bytes = 0, bp_unread = []\<rparr>)"
        using get_part_reader_body [of ex hdrs len "MultipartReader hs B None False []"] by simp
      from next_at_delimiter [OF ls ds wb pos wh this fuel]
      show "\<exists>s1. mr_next k ex r0 s0 =
               Ret (Some (BodyPart \<lparr>bp_headers = hdrs, bp_boundary = B, bp_at_eof = False,
                            bp_length = len, bp_read_bytes = 0, bp_unread = []\<rparr>),
                    MultipartReader hs B
                      (Some (BodyPart \<lparr>bp_headers = hdrs, bp_boundary = B, bp_at_eof = False,
                            bp_length = len, bp_read_bytes = 0, bp_unread = []\<rparr>)) False [],
                    s1)
            \<and> view s1 = rest" .
    }
  qed
  from a b get_part_reader_multipart [of ex hdrs b r] get_part_reader_body [of ex hdrs "None" r]
      get_part_reader_body [of ex hdrs "Some j" r]
  show ?thesis by auto
qed

text \<open>A reader with no headers of its own yields a nested reader for the part whose
  header block says \<^verbatim>\<open>multipart/mixed\<close>.\<close>

theorem next_dispatches_on_media_type_witness:
  "mr_next 3 demo_ext demo_reader
     (''--B'' @ CRLF @ ''Content-Type: multipart/mixed; boundary=IN'' @ CRLF @ CRLF
        @ ''--IN--'' @ CRLF @ ''--B--'' @ CRLF) =
   Ret (Some (Multipart (MultipartReader demo_nested_headers ''--IN'' None False [])),
        MultipartReader [] ''--B''
          (Some (Multipart (MultipartReader demo_nested_headers ''--IN'' None False []))) False [],
        ''--IN--'' @ CRLF @ ''--B--'' @ CRLF)"
proof -
  have m: "media_type demo_ext demo_nested_headers = ''multipart''" by code_simp
  have c: "headers_get demo_nested_headers CONTENT_TYPE \<noteq> None" by code_simp
  have b: "boundary_param demo_ext demo_nested_headers = Some ''IN''" by code_simp
  have w: "wf_header demo_ext [''Content-Type: multipart/mixed; boundary=IN'' @ CRLF]
             demo_nested_headers" by code_simp
  have d: "decode_strip demo_ext CRLF = Some []" by code_simp
  have wb: "wf_boundary ''--B''" by code_simp
  have p: "positioned [] ''--B'' (''--B'' @ CRLF)
      (concat [''Content-Type: multipart/mixed; boundary=IN'' @ CRLF] @ CRLF
         @ ''--IN--'' @ CRLF @ ''--B--'' @ CRLF) demo_reader
      (''--B'' @ CRLF @ ''Content-Type: multipart/mixed; boundary=IN'' @ CRLF @ CRLF
        @ ''--IN--'' @ CRLF @ ''--B--'' @ CRLF)"
    by (simp add: positioned_def pushed_back_def demo_reader_def)
  have f: "Suc (length [''Content-Type: multipart/mixed; boundary=IN'' @ CRLF]) < 3" by simp
  from next_dispatches_on_media_type [where ex = demo_ext and view = "\<lambda>s. s" and B = "''--B''" and hs = "[]"
      and hl = "[''Content-Type: multipart/mixed; boundary=IN'' @ CRLF]"
      and rest = "''--IN--'' @ CRLF @ ''--B--'' @ CRLF" and ?r0.0 = demo_reader
      and ?s0.0 = "''--B'' @ CRLF @ ''Content-Type: multipart/mixed; boundary=IN'' @ CRLF @ CRLF
        @ ''--IN--'' @ CRLF @ ''--B--'' @ CRLF"
      and hdrs = demo_nested_headers and k = 3 and b = "''IN''",
      THEN conjunct2, THEN conjunct1, THEN mp, THEN conjunct1, THEN mp]
    demo_streams(1) d wb p w f m c b
  show ?thesis by auto
qed

subsection \<open>Walking through a well-formed body\<close>

text \<open>Reading a part to its end leaves the reader of the body at the boundary line that
  follows the part. The walk through a body goes by induction on the size of the body,
  so that it passes through nested bodies of any depth.\<close>


lemma get_node_reader:
  assumes "wf_node ex B w" "mr_boundary r = B"
  shows "mr_get_part_reader ex r (node_headers w) = Ret (node_reader B w)"
proof (cases w)
  case (LinesNode hl h ls)
  then show ?thesis
    using assms get_part_reader_body [of ex h None r] by simp
next
  case (SizedNode hl h d)
  then obtain v where "headers_get h CONTENT_LENGTH = Some v" "py_int ex v = Some (int (length d))"
    using assms(1) by (auto split: option.splits)
  then show ?thesis
    using SizedNode assms get_part_reader_body [of ex h "Some (int (length d))" r] by simp
next
  case (MultiNode hl h B' subs)
  then obtain b where "boundary_param ex h = Some b" "B' = ''--'' @ b"
    using assms(1) by (auto split: option.splits)
  then show ?thesis
    using MultiNode assms(1) get_part_reader_multipart [of ex h b r] by simp
qed

lemma wf_node_header: "wf_node ex B w \<Longrightarrow> wf_header ex (node_header_lines w) (node_headers w)"
  by (cases w) simp_all

lemma lines_read:
  assumes "line_stream ex view" "mem_readline (bl @ rest) = (bl, rest)" "is_boundary_line B bl"
  shows "list_all (\<lambda>l. is_line l \<and> \<not> is_boundary_line B l) ls \<Longrightarrow> length ls < n \<Longrightarrow>
     \<not> bp_at_eof p \<Longrightarrow> bp_boundary p = B \<Longrightarrow> view s = concat ls @ bl @ rest \<Longrightarrow>
     \<exists>s'. bp_read_lines n ex p s data =
             Ret (data @ concat ls, p\<lparr>bp_at_eof := True, bp_unread := bp_unread p @ [bl]\<rparr>, s')
          \<and> view s' = rest"
proof (induction ls arbitrary: n data s)
  case Nil
  then obtain m where n: "n = Suc m" by (cases n) auto
  from Nil.prems(5) have v: "view s = bl @ rest" by simp
  obtain s' where s': "stream_readline ex s = (bl, s')" "view s' = rest"
    by (rule readline_step [OF assms(1) v assms(2)])
  from bp_readline_active [OF Nil.prems(3) s'(1)] assms(3) Nil.prems(4)
  have "bp_readline ex p s =
      Ret ([], p\<lparr>bp_at_eof := True, bp_unread := bp_unread p @ [bl]\<rparr>, s')"
    by (simp add: is_boundary_line_def)
  then show ?case using n Nil.prems(3) s'(2) by (cases m) simp_all
next
  case (Cons l ls)
  then obtain m where n: "n = Suc m" and m: "length ls < m" by (cases n) auto
  from Cons.prems(1) have l: "is_line l" "\<not> is_boundary_line B l"
    and rest: "list_all (\<lambda>l. is_line l \<and> \<not> is_boundary_line B l) ls" by simp_all
  from Cons.prems(5) have v: "view s = l @ (concat ls @ bl @ rest)" by simp
  obtain s1 where s1: "stream_readline ex s = (l, s1)" "view s1 = concat ls @ bl @ rest"
    by (rule readline_step [OF assms(1) v is_line_readline [OF l(1)]])
  from bp_readline_active [OF Cons.prems(3) s1(1)] l(2) Cons.prems(4)
  have "bp_readline ex p s = Ret (l, p, s1)"
    by (simp add: is_boundary_line_def)
  then show ?case
    using n Cons.prems(3) Cons.IH [OF rest m Cons.prems(3,4) s1(2), of "data @ l"] by simp
qed

lemma chunks_read:
  assumes "full_reads ex view"
  shows "\<not> bp_at_eof p \<Longrightarrow> bp_length p = Some len \<Longrightarrow> len - bp_read_bytes p = int (length d) \<Longrightarrow>
     length d < n \<Longrightarrow> view s = d @ rest \<Longrightarrow>
     \<exists>s'. bp_read_chunks n ex p s data =
             Ret (data @ d, p\<lparr>bp_read_bytes := len, bp_at_eof := True\<rparr>, s')
          \<and> view s' = rest"
proof (induction n arbitrary: p d data s)
  case 0
  then show ?case by simp
next
  case (Suc n)
  let ?c = "min chunk_size (int (length d))"
  let ?k = "nat ?c"
  have c0: "0 \<le> ?c" by (simp add: chunk_size_def)
  have kd: "?k \<le> length d" by (simp add: chunk_size_def)
  obtain s1 where s1: "stream_read ex ?c s = (take ?k d, s1)" "view s1 = drop ?k d @ rest"
    by (rule read_step [OF assms c0 Suc.prems(5) kd])
  have step: "bp_read_chunk ex p s chunk_size =
      Ret (take ?k d, p\<lparr>bp_read_bytes := bp_read_bytes p + ?c,
             bp_at_eof := (bp_read_bytes p + ?c = len)\<rparr>, s1)"
    using read_chunk_step [OF Suc.prems(1,2), of ex s chunk_size] Suc.prems(3) s1(1) by simp
  show ?case
  proof (cases "?c = int (length d)")
    case True
    then have "?k = length d" by simp
    moreover have "bp_read_bytes p + ?c = len" using True Suc.prems(3) by simp
    ultimately show ?thesis using step Suc.prems(1) s1(2) by (cases n) simp_all
  next
    case False
    then have ck: "?c = chunk_size" and lt: "chunk_size < int (length d)"
      by (auto simp: min_def split: if_splits)
    let ?p = "p\<lparr>bp_read_bytes := bp_read_bytes p + chunk_size\<rparr>"
    have ne: "bp_read_bytes p + chunk_size \<noteq> len" using lt Suc.prems(3) by simp
    have step': "bp_read_chunk ex p s chunk_size = Ret (take ?k d, ?p, s1)"
      using step ck ne Suc.prems(1) by simp
    have "\<exists>s'. bp_read_chunks n ex ?p s1 (data @ take ?k d) =
        Ret ((data @ take ?k d) @ drop ?k d, ?p\<lparr>bp_read_bytes := len, bp_at_eof := True\<rparr>, s')
        \<and> view s' = rest"
    proof (rule Suc.IH)
      show "\<not> bp_at_eof ?p" using Suc.prems(1) by simp
      show "bp_length ?p = Some len" using Suc.prems(2) by simp
      show "len - bp_read_bytes ?p = int (length (drop ?k d))"
        using Suc.prems(3) ck lt by (simp add: chunk_size_def)
      show "length (drop ?k d) < n" using Suc.prems(4) ck by (simp add: chunk_size_def)
      show "view s1 = drop ?k d @ rest" by (rule s1(2))
    qed
    then show ?thesis using step' Suc.prems(1) by simp
  qed
qed

lemma lines_part_read:
  assumes "line_stream ex view" "mem_readline (bl @ rest) = (bl, rest)" "is_boundary_line B bl"
    "list_all (\<lambda>l. is_line l \<and> \<not> is_boundary_line B l) ls" "length ls < n"
    "\<not> bp_at_eof p" "bp_boundary p = B" "bp_length p = None"
    "view s = concat ls @ bl @ rest"
  shows "\<exists>s'. bp_read n ex p s False =
       Ret (concat ls, p\<lparr>bp_at_eof := True, bp_unread := bp_unread p @ [bl]\<rparr>, s')
       \<and> view s' = rest"
  using lines_read [OF assms(1-7) assms(9), of "[]"] assms(6,8) by (auto simp: bp_read_def)

lemma sized_part_read:
  assumes "line_stream ex view" "full_reads ex view" "\<not> bp_at_eof p" "bp_length p = Some len"
    "len - bp_read_bytes p = int (length d)" "length d < n" "view s = d @ CRLF @ rest"
  shows "\<exists>s'. bp_read n ex p s False =
       Ret (d, p\<lparr>bp_read_bytes := len, bp_at_eof := True\<rparr>, s') \<and> view s' = rest"
proof -
  from chunks_read [OF assms(2-7), of "[]"] obtain s1 where
    c: "bp_read_chunks n ex p s [] = Ret (d, p\<lparr>bp_read_bytes := len, bp_at_eof := True\<rparr>, s1)"
    and v: "view s1 = CRLF @ rest" by auto
  obtain s' where "stream_readline ex s1 = (CRLF, s')" "view s' = rest"
    by (rule readline_step [OF assms(1) v is_line_readline [OF is_line_CRLF]])
  then show ?thesis using c assms(3,4) by (simp add: bp_read_def)
qed

lemma walk_tree:
  assumes ls: "line_stream ex view" and ds: "decode_strip ex CRLF = Some []"
  shows "wf_boundary B \<Longrightarrow> list_all (wf_node ex B) ws \<Longrightarrow>
     (list_ex has_sized ws \<longrightarrow> full_reads ex view) \<Longrightarrow> terminator B tm rest \<Longrightarrow>
     positioned hs B (lead B ws tm) (after_lead B ws tm rest) r (view s) \<Longrightarrow>
     body_cost ws \<le> n \<Longrightarrow>
     \<exists>s'. read_all n ex r s =
             Ret (map node_yield ws, MultipartReader hs B None True [], s') \<and> view s' = rest"
proof (induction "size_list size ws" arbitrary: ws B hs r s n tm rest rule: less_induct)
  case less
  note wb = less.prems(1) and wf = less.prems(2) and fr = less.prems(3) and tm = less.prems(4)
    and pos = less.prems(5) and fuel = less.prems(6)
  note lf = lead_facts [OF wb tm]
  show ?case
  proof (cases ws)
    case Nil
    from fuel obtain m where n: "n = Suc m" and m: "0 < m" by (cases n) (auto simp: body_cost_def)
    have "\<exists>s'. mr_next m ex r s = Ret (None, MultipartReader hs B None True [], s') \<and> view s' = rest"
      using next_at_terminator [OF ls _ _ _ m, of tm rest B hs r s]
        lf(1) [of ws] lf(2) [of ws] pos Nil by (simp add: lead_def)
    then show ?thesis using n Nil by auto
  next
    case (Cons w ws')
    from fuel Cons obtain m where n: "n = Suc m" and m: "node_cost w + body_cost ws' \<le> Suc m"
      by (cases n) (auto simp: body_cost_def)
    have hlm: "Suc (length (node_header_lines w)) < m" and fb: "body_cost ws' \<le> m"
      using m by (cases w; simp add: body_cost_def)+
    from wf Cons have wn: "wf_node ex B w" and wf': "list_all (wf_node ex B) ws'" by simp_all
    have fr': "list_ex has_sized ws' \<longrightarrow> full_reads ex view" using fr Cons by simp
    have sz': "size_list size ws' < size_list size ws" using Cons by simp
    let ?after = "lead B ws' tm @ after_lead B ws' tm rest"
    have pos1: "positioned hs B (B @ CRLF)
        (concat (node_header_lines w) @ CRLF @ node_content w @ ?after) r (view s)"
      using pos Cons lead_facts(4) [OF wb tm, of ws'] by (simp add: lead_def)
    from next_at_delimiter [OF ls ds wb pos1 wf_node_header [OF wn]
        get_node_reader [OF wn] hlm]
    obtain s1 where
      nx: "mr_next m ex r s =
             Ret (Some (node_reader B w), MultipartReader hs B (Some (node_reader B w)) False [], s1)"
      and v1: "view s1 = node_content w @ ?after"
      by auto
    note lf' = lead_facts [OF wb tm, of ws']
    have step: "\<exists>lp' s2 y. positioned hs B (lead B ws' tm) (after_lead B ws' tm rest)
                   (MultipartReader hs B (Some lp') False []) (view s2)
        \<and> y = node_yield w
        \<and> read_all (Suc m) ex r s =
            (case read_all m ex (MultipartReader hs B (Some lp') False []) s2 of
               Ret (ys, rf, sf) \<Rightarrow> Ret (y # ys, rf, sf)
             | Raise e \<Rightarrow> Raise e | OutOfFuel \<Rightarrow> OutOfFuel)"
    proof (cases w)
      case (LinesNode hl h lines)
      let ?p = "\<lparr>bp_headers = h, bp_boundary = B, bp_at_eof = False,
               bp_length = None, bp_read_bytes = 0, bp_unread = []\<rparr>"
      have ll: "list_all (\<lambda>l. is_line l \<and> \<not> is_boundary_line B l) lines"
        using wn LinesNode by simp
      have lm: "length lines < m" using m LinesNode by (simp add: body_cost_def)
      have v: "view s1 = concat lines @ lead B ws' tm @ after_lead B ws' tm rest"
        using v1 LinesNode by simp
      from lines_part_read [OF ls lf'(1) lf'(3) ll lm _ _ _ v, of ?p] obtain s2 where
        rd: "bp_read m ex ?p s1 False =
          Ret (concat lines, ?p\<lparr>bp_at_eof := True, bp_unread := [lead B ws' tm]\<rparr>, s2)"
        and v2: "view s2 = after_lead B ws' tm rest" by auto
      let ?p' = "?p\<lparr>bp_at_eof := True, bp_unread := [lead B ws' tm]\<rparr>"
      have "positioned hs B (lead B ws' tm) (after_lead B ws' tm rest)
                   (MultipartReader hs B (Some (BodyPart ?p')) False []) (view s2)"
        using v2 by (simp add: positioned_def pushed_back_def)
      moreover have "read_all (Suc m) ex r s =
            (case read_all m ex (MultipartReader hs B (Some (BodyPart ?p')) False []) s2 of
               Ret (ys, rf, sf) \<Rightarrow> Ret (node_yield w # ys, rf, sf)
             | Raise e \<Rightarrow> Raise e | OutOfFuel \<Rightarrow> OutOfFuel)"
        using nx rd LinesNode by (simp add: set_last_part_def split: res.splits)
      ultimately show ?thesis by blast
    next
      case (SizedNode hl h d)
      let ?p = "\<lparr>bp_headers = h, bp_boundary = B, bp_at_eof = False,
               bp_length = Some (int (length d)), bp_read_bytes = 0, bp_unread = []\<rparr>"
      have fr1: "full_reads ex view" using fr Cons SizedNode by simp
      have dm: "length d < m" using m SizedNode by (simp add: body_cost_def)
      have v: "view s1 = d @ CRLF @ ?after" using v1 SizedNode by simp
      from sized_part_read [OF ls fr1 _ _ _ dm v, of ?p "int (length d)"] obtain s2 where
        rd: "bp_read m ex ?p s1 False =
          Ret (d, ?p\<lparr>bp_read_bytes := int (length d), bp_at_eof := True\<rparr>, s2)"
        and v2: "view s2 = ?after" by auto
      let ?p' = "?p\<lparr>bp_read_bytes := int (length d), bp_at_eof := True\<rparr>"
      have "positioned hs B (lead B ws' tm) (after_lead B ws' tm rest)
                   (MultipartReader hs B (Some (BodyPart ?p')) False []) (view s2)"
        using v2 by (simp add: positioned_def pushed_back_def)
      moreover have "read_all (Suc m) ex r s =
            (case read_all m ex (MultipartReader hs B (Some (BodyPart ?p')) False []) s2 of
               Ret (ys, rf, sf) \<Rightarrow> Ret (node_yield w # ys, rf, sf)
             | Raise e \<Rightarrow> Raise e | OutOfFuel \<Rightarrow> OutOfFuel)"
        using nx rd SizedNode by (simp add: set_last_part_def split: res.splits)
      ultimately show ?thesis by blast
    next
      case (MultiNode hl h B' subs)
      let ?tm' = "B' @ ''--'' @ CRLF"
      have wb': "wf_boundary B'" and wfs: "list_all (wf_node ex B') subs"
        using wn MultiNode by simp_all
      have tm': "terminator B' ?tm' ?after" by (simp add: terminator_def)
      have frs: "list_ex has_sized subs \<longrightarrow> full_reads ex view" using fr Cons MultiNode by simp
      have szs: "size_list size subs < size_list size ws" using Cons MultiNode by simp
      have cs: "body_cost subs \<le> m" using m MultiNode by (simp add: body_cost_def)
      have "view s1 = encode_nodes B' subs @ ?tm' @ ?after"
        using v1 MultiNode by (simp add: node_content_multi del: node_content.simps)
      then have "view s1 = lead B' subs ?tm' @ after_lead B' subs ?tm' ?after"
        using lead_facts(4) [OF wb' tm', of subs] by simp
      then have posn: "positioned h B' (lead B' subs ?tm') (after_lead B' subs ?tm' ?after)
          (MultipartReader h B' None False []) (view s1)"
        by (simp add: positioned_def pushed_back_def)
      from less.hyps [OF szs wb' wfs frs tm' posn cs] obtain s2 where
        sub: "read_all m ex (MultipartReader h B' None False []) s1 =
                Ret (map node_yield subs, MultipartReader h B' None True [], s2)"
        and v2: "view s2 = ?after" by auto
      let ?m' = "MultipartReader h B' None True []"
      have "positioned hs B (lead B ws' tm) (after_lead B ws' tm rest)
                   (MultipartReader hs B (Some (Multipart ?m')) False []) (view s2)"
        using v2 by (simp add: positioned_def pushed_back_def)
      moreover have "read_all (Suc m) ex r s =
            (case read_all m ex (MultipartReader hs B (Some (Multipart ?m')) False []) s2 of
               Ret (ys, rf, sf) \<Rightarrow> Ret (node_yield w # ys, rf, sf)
             | Raise e \<Rightarrow> Raise e | OutOfFuel \<Rightarrow> OutOfFuel)"
        using nx sub MultiNode by (simp add: set_last_part_def split: res.splits)
      ultimately show ?thesis by blast
    qed
    then obtain lp' s2 where
      pos2: "positioned hs B (lead B ws' tm) (after_lead B ws' tm rest)
                   (MultipartReader hs B (Some lp') False []) (view s2)"
      and ra: "read_all (Suc m) ex r s =
            (case read_all m ex (MultipartReader hs B (Some lp') False []) s2 of
               Ret (ys, rf, sf) \<Rightarrow> Ret (node_yield w # ys, rf, sf)
             | Raise e \<Rightarrow> Raise e | OutOfFuel \<Rightarrow> OutOfFuel)"
      by blast
    from less.hyps [OF sz' wb wf' fr' tm pos2 fb] obtain s' where
      "read_all m ex (MultipartReader hs B (Some lp') False []) s2 =
         Ret (map node_yield ws', MultipartReader hs B None True [], s')" "view s' = rest"
      by auto
    then show ?thesis using ra n Cons by simp
  qed
qed

lemma demo_tree_wf: "wf_tree demo_ext (\<lambda>s. s) ''--B'' demo_tree"
proof -
  have 2: "decode_strip demo_ext CRLF = Some []" by code_simp
  have 3: "wf_boundary ''--B''" by code_simp
  have 4: "list_all (wf_node demo_ext ''--B'') demo_tree" by code_simp
  from demo_streams 2 3 4 show ?thesis by (simp add: wf_tree_def)
qed

lemma demo_tree_bytes: "demo_tree_body = encode_nodes ''--B'' demo_tree @ ''--B--'' @ []"
  by code_simp

lemma demo_tree_cost: "body_cost demo_tree \<le> 31"
  by code_simp

lemma demo_tree_yield:
  "map node_yield demo_tree =
     [Leaf [(''Content-Type'', ''text/plain'')] (''first'' @ CRLF @ ''second'' @ CRLF),
      Nested demo_nested_headers [Leaf [(''Content-Length'', ''2'')] ''ab''],
      Leaf [(''Content-Length'', ''5'')] ''hello'']"
  by (simp add: demo_tree_def demo_nested_node_def demo_sized_node_def)

text \<open>
  Claim C1, as the code has it. Take a well-formed body of parts \<open>P1..Pn\<close>, any of which
  may be a nested multipart body, its terminator line with its CRLF or, at the end of
  the stream, without it; a stream of any kind that delivers lines and, where some part
  declares a length, delivers reads in full; and a new reader for the boundary. The
  caller that calls \<^verbatim>\<open>next()\<close>, reads each part with \<^verbatim>\<open>read()\<close> and walks through each
  nested reader in the same way gets, given enough steps, exactly \<open>P1..Pn\<close> in order,
  each with its headers; then \<^verbatim>\<open>next()\<close> returns no part, the reader is at its end, the
  stream stands behind the terminator line, and every later \<^verbatim>\<open>next()\<close> returns no part.
  \<^verbatim>\<open>read()\<close> of a line-bounded part returns exactly the bytes between its header block
  and the following boundary line; \<^verbatim>\<open>read()\<close> of a length-bounded part returns these
  bytes without the CRLF that ends them, which are the declared number of bytes. What
  \<^verbatim>\<open>read()\<close> of a length-bounded part does when the stream delivers fewer bytes than
  were asked for is no part of this statement.
\<close>

theorem walk_yields_every_part_in_order:
  assumes "wf_tree ex view B ws" "terminator B tm rest"
    "view s = encode_nodes B ws @ tm @ rest" "body_cost ws \<le> n"
  shows "(\<exists>s'. read_all n ex (MultipartReader hs B None False []) s =
                 Ret (map node_yield ws, MultipartReader hs B None True [], s')
              \<and> view s' = rest
              \<and> mr_next k ex (MultipartReader hs B None True []) s' =
                  Ret (None, MultipartReader hs B None True [], s'))
         \<and> list_all (\<lambda>w. case w of
                            LinesNode hl h ls \<Rightarrow> node_yield w = Leaf h (node_content w)
                          | SizedNode hl h d \<Rightarrow>
                              node_yield w = Leaf h d \<and> node_content w = d @ CRLF
                          | MultiNode hl h B' subs \<Rightarrow>
                              node_yield w = Nested h (map node_yield subs)) ws"
proof -
  from assms(1) have ls: "line_stream ex view" and ds: "decode_strip ex CRLF = Some []"
    and wb: "wf_boundary B" and wf: "list_all (wf_node ex B) ws"
    and fr: "list_ex has_sized ws \<longrightarrow> full_reads ex view"
    by (auto simp: wf_tree_def)
  have "positioned hs B (lead B ws tm) (after_lead B ws tm rest)
          (MultipartReader hs B None False []) (view s)"
    using assms(3) lead_facts(4) [OF wb assms(2), of ws]
    by (simp add: positioned_def pushed_back_def)
  from walk_tree [OF ls ds wb wf fr assms(2) this assms(4)] obtain s' where
    a: "read_all n ex (MultipartReader hs B None False []) s =
          Ret (map node_yield ws, MultipartReader hs B None True [], s')" "view s' = rest"
    by blast
  have b: "mr_next k ex (MultipartReader hs B None True []) s' =
             Ret (None, MultipartReader hs B None True [], s')"
    by (cases k) simp_all
  have c: "list_all (\<lambda>w. case w of
                            LinesNode hl h ls \<Rightarrow> node_yield w = Leaf h (node_content w)
                          | SizedNode hl h d \<Rightarrow>
                              node_yield w = Leaf h d \<and> node_content w = d @ CRLF
                          | MultiNode hl h B' subs \<Rightarrow>
                              node_yield w = Nested h (map node_yield subs)) ws"
    by (simp add: list_all_iff split: wire_node.splits)
  from a b c show ?thesis by blast
qed

text \<open>A body of a line-bounded part, a nested body and a length-bounded part, the
  terminator without CRLF.\<close>

theorem walk_yields_every_part_in_order_witness:
  "read_all 31 demo_ext demo_reader demo_tree_body =
   Ret ([Leaf [(''Content-Type'', ''text/plain'')] (''first'' @ CRLF @ ''second'' @ CRLF),
         Nested demo_nested_headers [Leaf [(''Content-Length'', ''2'')] ''ab''],
         Leaf [(''Content-Length'', ''5'')] ''hello''],
        MultipartReader [] ''--B'' None True [], [])"
proof -
  have t: "terminator ''--B'' ''--B--'' []" by (simp add: terminator_def)
  from walk_yields_every_part_in_order [OF demo_tree_wf t demo_tree_bytes demo_tree_cost, of "[]" 0]
  obtain s' where "read_all 31 demo_ext (MultipartReader [] ''--B'' None False []) demo_tree_body =
      Ret (map node_yield demo_tree, MultipartReader [] ''--B'' None True [], s')" "s' = []"
    by blast
  then show ?thesis by (simp only: demo_tree_yield demo_reader_def)
qed

text \<open>The claim as stated fails for a length-bounded part: between the header block
  and the terminator line of this body lie the bytes \<^verbatim>\<open>hello\<close> and a CRLF, and \<^verbatim>\<open>read()\<close>
  returns \<^verbatim>\<open>hello\<close>.\<close>

theorem read_omits_crlf_of_sized_part_counterexample:
  "read_all 9 demo_ext demo_reader
     (''--B'' @ CRLF @ ''Content-Length: 5'' @ CRLF @ CRLF @ ''hello'' @ CRLF @ ''--B--'' @ CRLF) =
   Ret ([Leaf [(''Content-Length'', ''5'')] ''hello''], MultipartReader [] ''--B'' None True [], [])
   \<and> encode_body ''--B'' [demo_wire_sized] =
       ''--B'' @ CRLF @ ''Content-Length: 5'' @ CRLF @ CRLF @ ''hello'' @ CRLF @ ''--B--'' @ CRLF
   \<and> wire_between demo_wire_sized = ''hello'' @ CRLF
   \<and> ''hello'' \<noteq> ''hello'' @ CRLF"
  by code_simp

subsection \<open>Leaving a part unfinished\<close>

text \<open>\<^verbatim>\<open>MultipartReader.release()\<close> goes through a body as the walk does, releasing each part
  where the walk reads it. Calls of \<^verbatim>\<open>readline\<close> and \<^verbatim>\<open>read_chunk\<close> that do not end a part
  leave it inside its content, from where \<^verbatim>\<open>release()\<close> takes it to the boundary line.\<close>


lemma readline_calls_at_eof:
  "bp_at_eof p \<Longrightarrow> bp_readline_calls ex p s k = Ret (replicate k [], p, s)"
  by (induction k) (auto simp: bp_readline_def)

lemma next_releases_last_part:
  assumes "\<not> mr_at_eof r" "mr_last_part r = Some lp" "\<not> part_at_eof lp"
    "part_release n ex lp s = Ret (lp', s')"
  shows "mr_next (Suc n) ex r s =
             mr_next (Suc n) ex
               (MultipartReader (mr_headers r) (mr_boundary r) None (mr_at_eof r)
                  (mr_unread r @ part_unread lp')) s'"
  using assms by simp

lemma next_at_body:
  assumes ls: "line_stream ex view" and ds: "decode_strip ex CRLF = Some []"
    and wb: "wf_boundary B" and wf: "list_all (wf_node ex B) ws"
    and tm: "terminator B tm rest"
    and pos: "positioned hs B (lead B ws tm) (after_lead B ws tm rest) r (view s)"
    and fuel: "(case ws of [] \<Rightarrow> 0 | w # _ \<Rightarrow> Suc (length (node_header_lines w))) < n"
  shows "\<exists>s'. mr_next n ex r s =
             Ret (next_part B ws, MultipartReader hs B (next_part B ws) (ws = []) [], s')
           \<and> view s' = next_view B ws tm rest"
proof (cases ws)
  case Nil
  note lf = lead_facts [OF wb tm, of ws]
  from fuel Nil have n: "0 < n" by simp
  show ?thesis
    using next_at_terminator [OF ls _ _ _ n, of tm rest B hs r s] lf(1) lf(2) pos Nil
    by (simp add: lead_def)
next
  case (Cons w ws')
  from wf Cons have wn: "wf_node ex B w" by simp
  have hl: "Suc (length (node_header_lines w)) < n" using fuel Cons by simp
  have pos1: "positioned hs B (B @ CRLF)
      (concat (node_header_lines w) @ CRLF @ node_content w @ encode_nodes B ws' @ tm @ rest)
      r (view s)"
    using pos Cons by (simp add: lead_def)
  from next_at_delimiter [OF ls ds wb pos1 wf_node_header [OF wn] get_node_reader [OF wn] hl]
  show ?thesis using Cons by simp
qed

lemma release_tree:
  assumes ls: "line_stream ex view" and ds: "decode_strip ex CRLF = Some []"
  shows "wf_boundary B \<Longrightarrow> list_all (wf_node ex B) ws \<Longrightarrow>
     (list_ex has_sized ws \<longrightarrow> full_reads ex view) \<Longrightarrow> terminator B tm rest \<Longrightarrow>
     positioned hs B (lead B ws tm) (after_lead B ws tm rest) r (view s) \<Longrightarrow>
     body_cost ws \<le> n \<Longrightarrow>
     \<exists>s'. mr_release n ex r s = Ret (MultipartReader hs B None True [], s') \<and> view s' = rest"
proof (induction "size_list size ws" arbitrary: ws B hs r s n tm rest rule: less_induct)
  case less
  note wb = less.prems(1) and wf = less.prems(2) and fr = less.prems(3) and tm = less.prems(4)
    and pos = less.prems(5) and fuel = less.prems(6)
  have ne: "\<not> mr_at_eof r" using pos by (simp add: positioned_def)
  show ?case
  proof (cases ws)
    case Nil
    from fuel obtain m where n: "n = Suc m" and m: "0 < m" by (cases n) (auto simp: body_cost_def)
    from next_at_body [OF ls ds wb wf tm pos, of m] Nil m obtain s' where
      "mr_next m ex r s = Ret (None, MultipartReader hs B None True [], s')" "view s' = rest"
      by auto
    then show ?thesis using n ne by simp
  next
    case (Cons w ws')
    from fuel Cons obtain m where n: "n = Suc m" and m: "node_cost w + body_cost ws' \<le> Suc m"
      by (cases n) (auto simp: body_cost_def)
    have hlm: "Suc (length (node_header_lines w)) < m" and fb: "body_cost ws' \<le> m"
      using m by (cases w; simp add: body_cost_def)+
    from wf Cons have wn: "wf_node ex B w" and wf': "list_all (wf_node ex B) ws'" by simp_all
    have fr': "list_ex has_sized ws' \<longrightarrow> full_reads ex view" using fr Cons by simp
    have sz': "size_list size ws' < size_list size ws" using Cons by simp
    let ?after = "lead B ws' tm @ after_lead B ws' tm rest"
    note lf' = lead_facts [OF wb tm, of ws']
    from next_at_body [OF ls ds wb wf tm pos, of m] Cons hlm lf'(4) obtain s1 where
      nx: "mr_next m ex r s =
             Ret (Some (node_reader B w), MultipartReader hs B (Some (node_reader B w)) False [], s1)"
      and v1: "view s1 = node_content w @ ?after"
      by auto
    have step: "\<exists>lp' s2. positioned hs B (lead B ws' tm) (after_lead B ws' tm rest)
                   (MultipartReader hs B (Some lp') False []) (view s2)
        \<and> part_release m ex (node_reader B w) s1 = Ret (lp', s2)"
    proof (cases w)
      case (LinesNode hl h lines)
      let ?p = "\<lparr>bp_headers = h, bp_boundary = B, bp_at_eof = False,
               bp_length = None, bp_read_bytes = 0, bp_unread = []\<rparr>"
      have ll: "list_all (\<lambda>l. is_line l \<and> \<not> is_boundary_line B l) lines"
        using wn LinesNode by simp
      have lm: "length lines < m" using m LinesNode by (simp add: body_cost_def)
      have v: "view s1 = concat lines @ lead B ws' tm @ after_lead B ws' tm rest"
        using v1 LinesNode by simp
      from lines_part_read [OF ls lf'(1) lf'(3) ll lm _ _ _ v, of ?p] obtain s2 where
        rd: "bp_read m ex ?p s1 False =
          Ret (concat lines, ?p\<lparr>bp_at_eof := True, bp_unread := [lead B ws' tm]\<rparr>, s2)"
        and v2: "view s2 = after_lead B ws' tm rest" by auto
      let ?p' = "?p\<lparr>bp_at_eof := True, bp_unread := [lead B ws' tm]\<rparr>"
      have "positioned hs B (lead B ws' tm) (after_lead B ws' tm rest)
                   (MultipartReader hs B (Some (BodyPart ?p')) False []) (view s2)"
        using v2 by (simp add: positioned_def pushed_back_def)
      moreover have "part_release m ex (node_reader B w) s1 = Ret (BodyPart ?p', s2)"
        using rd LinesNode by (simp add: release_is_read)
      ultimately show ?thesis by blast
    next
      case (SizedNode hl h d)
      let ?p = "\<lparr>bp_headers = h, bp_boundary = B, bp_at_eof = False,
               bp_length = Some (int (length d)), bp_read_bytes = 0, bp_unread = []\<rparr>"
      have fr1: "full_reads ex view" using fr Cons SizedNode by simp
      have dm: "length d < m" using m SizedNode by (simp add: body_cost_def)
      have v: "view s1 = d @ CRLF @ ?after" using v1 SizedNode by simp
      from sized_part_read [OF ls fr1 _ _ _ dm v, of ?p "int (length d)"] obtain s2 where
        rd: "bp_read m ex ?p s1 False =
          Ret (d, ?p\<lparr>bp_read_bytes := int (length d), bp_at_eof := True\<rparr>, s2)"
        and v2: "view s2 = ?after" by auto
      let ?p' = "?p\<lparr>bp_read_bytes := int (length d), bp_at_eof := True\<rparr>"
      have "positioned hs B (lead B ws' tm) (after_lead B ws' tm rest)
                   (MultipartReader hs B (Some (BodyPart ?p')) False []) (view s2)"
        using v2 by (simp add: positioned_def pushed_back_def)
      moreover have "part_release m ex (node_reader B w) s1 = Ret (BodyPart ?p', s2)"
        using rd SizedNode by (simp add: release_is_read)
      ultimately show ?thesis by blast
    next
      case (MultiNode hl h B' subs)
      let ?tm' = "B' @ ''--'' @ CRLF"
      have wb': "wf_boundary B'" and wfs: "list_all (wf_node ex B') subs"
        using wn MultiNode by simp_all
      have tm': "terminator B' ?tm' ?after" by (simp add: terminator_def)
      have frs: "list_ex has_sized subs \<longrightarrow> full_reads ex view" using fr Cons MultiNode by simp
      have szs: "size_list size subs < size_list size ws" using Cons MultiNode by simp
      have cs: "body_cost subs \<le> m" using m MultiNode by (simp add: body_cost_def)
      have "view s1 = encode_nodes B' subs @ ?tm' @ ?after"
        using v1 MultiNode by (simp add: node_content_multi del: node_content.simps)
      then have "view s1 = lead B' subs ?tm' @ after_lead B' subs ?tm' ?after"
        using lead_facts(4) [OF wb' tm', of subs] by simp
      then have posn: "positioned h B' (lead B' subs ?tm') (after_lead B' subs ?tm' ?after)
          (MultipartReader h B' None False []) (view s1)"
        by (simp add: positioned_def pushed_back_def)
      from less.hyps [OF szs wb' wfs frs tm' posn cs] obtain s2 where
        sub: "mr_release m ex (MultipartReader h B' None False []) s1 =
                Ret (MultipartReader h B' None True [], s2)"
        and v2: "view s2 = ?after" by auto
      let ?m' = "MultipartReader h B' None True []"
      have "positioned hs B (lead B ws' tm) (after_lead B ws' tm rest)
                   (MultipartReader hs B (Some (Multipart ?m')) False []) (view s2)"
        using v2 by (simp add: positioned_def pushed_back_def)
      moreover have "part_release m ex (node_reader B w) s1 = Ret (Multipart ?m', s2)"
        using sub MultiNode by simp
      ultimately show ?thesis by blast
    qed
    then obtain lp' s2 where
      pos2: "positioned hs B (lead B ws' tm) (after_lead B ws' tm rest)
                   (MultipartReader hs B (Some lp') False []) (view s2)"
      and pr: "part_release m ex (node_reader B w) s1 = Ret (lp', s2)"
      by blast
    from less.hyps [OF sz' wb wf' fr' tm pos2 fb] obtain s' where
      "mr_release m ex (MultipartReader hs B (Some lp') False []) s2 =
         Ret (MultipartReader hs B None True [], s')" "view s' = rest"
      by auto
    then show ?thesis using nx pr n ne by (simp add: set_last_part_def)
  qed
qed

lemma readline_calls_view:
  assumes "line_stream ex view" "mem_readline (bl @ rest) = (bl, rest)" "is_boundary_line B bl"
    "\<not> bp_at_eof p" "bp_boundary p = B"
  shows "list_all (\<lambda>l. is_line l \<and> \<not> is_boundary_line B l) ls \<Longrightarrow>
     view s = concat ls @ bl @ rest \<Longrightarrow>
     bp_readline_calls ex p s k = Ret (out, p1, s1) \<Longrightarrow> \<not> bp_at_eof p1 \<Longrightarrow>
     p1 = p \<and> (\<exists>ls'. list_all (\<lambda>l. is_line l \<and> \<not> is_boundary_line B l) ls'
                  \<and> length ls' \<le> length ls \<and> view s1 = concat ls' @ bl @ rest)"
proof (induction k arbitrary: ls out s)
  case 0
  then show ?case by auto
next
  case (Suc k)
  show ?case
  proof (cases ls)
    case Nil
    then have v: "view s = bl @ rest" using Suc.prems(2) by simp
    obtain s' where s': "stream_readline ex s = (bl, s')" "view s' = rest"
      by (rule readline_step [OF assms(1) v assms(2)])
    from bp_readline_active [OF assms(4) s'(1)] assms(3,5)
    have "bp_readline ex p s =
        Ret ([], p\<lparr>bp_at_eof := True, bp_unread := bp_unread p @ [bl]\<rparr>, s')"
      by (simp add: is_boundary_line_def)
    then have "bp_at_eof p1"
      using Suc.prems(3)
        readline_calls_at_eof [of "p\<lparr>bp_at_eof := True, bp_unread := bp_unread p @ [bl]\<rparr>" ex s' k]
      by auto
    then show ?thesis using Suc.prems(4) by simp
  next
    case (Cons l ls'')
    from Suc.prems(1) Cons have l: "is_line l" "\<not> is_boundary_line B l"
      and rest: "list_all (\<lambda>l. is_line l \<and> \<not> is_boundary_line B l) ls''" by simp_all
    have v: "view s = l @ (concat ls'' @ bl @ rest)" using Suc.prems(2) Cons by simp
    obtain s2 where s2: "stream_readline ex s = (l, s2)" "view s2 = concat ls'' @ bl @ rest"
      by (rule readline_step [OF assms(1) v is_line_readline [OF l(1)]])
    from bp_readline_active [OF assms(4) s2(1)] l(2) assms(5)
    have "bp_readline ex p s = Ret (l, p, s2)"
      by (simp add: is_boundary_line_def)
    then obtain out' where "bp_readline_calls ex p s2 k = Ret (out', p1, s1)"
      using Suc.prems(3) by (auto split: res.splits)
    from Suc.IH [OF rest s2(2) this Suc.prems(4)] show ?thesis using Cons by auto
  qed
qed

lemma read_chunk_calls_view:
  assumes "full_reads ex view"
  shows "list_all (\<lambda>k. 0 \<le> k) ns \<Longrightarrow> \<not> bp_at_eof p \<Longrightarrow> bp_length p = Some len \<Longrightarrow>
     len - bp_read_bytes p = int (length d) \<Longrightarrow> view s = d @ rest \<Longrightarrow>
     bp_read_chunk_calls ex p s ns = Ret (out, p1, s1) \<Longrightarrow> \<not> bp_at_eof p1 \<Longrightarrow>
     \<exists>d'. length d' \<le> length d \<and> p1 = p\<lparr>bp_read_bytes := len - int (length d')\<rparr>
           \<and> view s1 = d' @ rest"
proof (induction ns arbitrary: p d out s)
  case Nil
  then show ?case by (intro exI [of _ d]) auto
next
  case (Cons k ns)
  let ?c = "min k (int (length d))"
  let ?k = "nat ?c"
  from Cons.prems(1) have k0: "0 \<le> k" and ns: "list_all (\<lambda>k. 0 \<le> k) ns" by simp_all
  have c0: "0 \<le> ?c" using k0 by simp
  have kd: "?k \<le> length d" by simp
  obtain s2 where s2: "stream_read ex ?c s = (take ?k d, s2)" "view s2 = drop ?k d @ rest"
    by (rule read_step [OF assms c0 Cons.prems(5) kd])
  let ?p = "p\<lparr>bp_read_bytes := bp_read_bytes p + ?c, bp_at_eof := (bp_read_bytes p + ?c = len)\<rparr>"
  have step: "bp_read_chunk ex p s k = Ret (take ?k d, ?p, s2)"
    using read_chunk_step [OF Cons.prems(2,3), of ex s k] Cons.prems(4) s2(1) by simp
  then obtain out' where calls: "bp_read_chunk_calls ex ?p s2 ns = Ret (out', p1, s1)"
    using Cons.prems(6) by (auto split: res.splits)
  have ne: "\<not> bp_at_eof ?p"
  proof
    assume "bp_at_eof ?p"
    from read_chunk_calls_at_eof [OF this, of ex s2 ns] calls
    have "p1 = ?p" by simp
    then show False using \<open>bp_at_eof ?p\<close> Cons.prems(7) by simp
  qed
  then have p: "?p = p\<lparr>bp_read_bytes := bp_read_bytes p + ?c\<rparr>"
    using Cons.prems(2) by simp
  have "\<exists>d'. length d' \<le> length (drop ?k d) \<and> p1 = ?p\<lparr>bp_read_bytes := len - int (length d')\<rparr>
           \<and> view s1 = d' @ rest"
  proof (rule Cons.IH [OF ns ne _ _ s2(2) calls Cons.prems(7)])
    show "bp_length ?p = Some len" using Cons.prems(3) by simp
    show "len - bp_read_bytes ?p = int (length (drop ?k d))"
      using Cons.prems(4) k0 by simp
  qed
  then obtain d' where d': "length d' \<le> length (drop ?k d)"
    "p1 = ?p\<lparr>bp_read_bytes := len - int (length d')\<rparr>" "view s1 = d' @ rest" by blast
  have "p1 = p\<lparr>bp_read_bytes := len - int (length d')\<rparr>" using d'(2) p by simp
  moreover have "length d' \<le> length d" using d'(1) by simp
  ultimately show ?case using d'(3) by blast
qed

lemma release_abandoned:
  assumes ls: "line_stream ex view" and ds: "decode_strip ex CRLF = Some []"
    and wb: "wf_boundary B" and wn: "wf_node ex B w"
    and fr: "has_sized w \<longrightarrow> full_reads ex view"
    and bl: "mem_readline (bl @ rest) = (bl, rest)" "is_boundary_line B bl"
    and ab: "abandoned ex view B w (bl @ rest) lp s"
    and fuel: "node_cost w \<le> m"
  shows "\<not> part_at_eof lp \<and>
     (\<exists>lp' s'. part_release m ex lp s = Ret (lp', s')
        \<and> (part_unread lp' = [] \<and> view s' = bl @ rest \<or> part_unread lp' = [bl] \<and> view s' = rest))"
proof (cases w)
  case (LinesNode hl h lines)
  let ?p0 = "\<lparr>bp_headers = h, bp_boundary = B, bp_at_eof = False,
               bp_length = None, bp_read_bytes = 0, bp_unread = []\<rparr>"
  from ab LinesNode obtain k out s0 p1 where
    v0: "view s0 = concat lines @ bl @ rest"
    and calls: "bp_readline_calls ex ?p0 s0 k = Ret (out, p1, s)"
    and ne: "\<not> bp_at_eof p1" and lp: "lp = BodyPart p1"
    by (auto simp: abandoned_def)
  have ll: "list_all (\<lambda>l. is_line l \<and> \<not> is_boundary_line B l) lines"
    using wn LinesNode by simp
  from readline_calls_view [OF ls bl _ _ ll v0 calls ne] obtain ls' where
    p1: "p1 = ?p0" and ls': "list_all (\<lambda>l. is_line l \<and> \<not> is_boundary_line B l) ls'"
    "length ls' \<le> length lines" and v: "view s = concat ls' @ bl @ rest"
    by auto
  have lm: "length ls' < m" using fuel ls'(2) LinesNode by simp
  from lines_part_read [OF ls bl ls'(1) lm _ _ _ v, of ?p0] obtain s' where
    "bp_read m ex ?p0 s False =
      Ret (concat ls', ?p0\<lparr>bp_at_eof := True, bp_unread := [bl]\<rparr>, s')" "view s' = rest"
    by auto
  then show ?thesis using lp p1 by (simp add: release_is_read)
next
  case (SizedNode hl h d)
  let ?p0 = "\<lparr>bp_headers = h, bp_boundary = B, bp_at_eof = False,
               bp_length = Some (int (length d)), bp_read_bytes = 0, bp_unread = []\<rparr>"
  have fr1: "full_reads ex view" using fr SizedNode by simp
  from ab SizedNode obtain ns out s0 p1 where
    v0: "view s0 = d @ (CRLF @ bl @ rest)" and nn: "list_all (\<lambda>k. 0 \<le> k) ns"
    and calls: "bp_read_chunk_calls ex ?p0 s0 ns = Ret (out, p1, s)"
    and ne: "\<not> bp_at_eof p1" and lp: "lp = BodyPart p1"
    by (auto simp: abandoned_def)
  from read_chunk_calls_view [OF fr1 nn _ _ _ v0 calls ne, of "int (length d)"] obtain d' where
    d': "length d' \<le> length d" "p1 = ?p0\<lparr>bp_read_bytes := int (length d) - int (length d')\<rparr>"
    "view s = d' @ CRLF @ bl @ rest"
    by auto
  have dm: "length d' < m" using fuel d'(1) SizedNode by simp
  from sized_part_read [OF ls fr1 ne _ _ dm d'(3), of "int (length d)"] d'(2) obtain s' where
    "bp_read m ex p1 s False =
      Ret (d', p1\<lparr>bp_read_bytes := int (length d), bp_at_eof := True\<rparr>, s')" "view s' = bl @ rest"
    by auto
  then show ?thesis using lp ne d'(2) by (simp add: release_is_read)
next
  case (MultiNode hl h B' subs)
  let ?tm' = "B' @ ''--'' @ CRLF"
  from ab MultiNode obtain subs1 subs2 m1 where
    sp: "subs = subs1 @ subs2" and lp: "lp = Multipart m1"
    and pos: "positioned h B' (lead B' subs2 ?tm') (after_lead B' subs2 ?tm' (bl @ rest)) m1 (view s)"
    by (auto simp: abandoned_def)
  have wb': "wf_boundary B'" and wfs: "list_all (wf_node ex B') subs2"
    using wn MultiNode sp by simp_all
  have tm': "terminator B' ?tm' (bl @ rest)" by (simp add: terminator_def)
  have frs: "list_ex has_sized subs2 \<longrightarrow> full_reads ex view" using fr MultiNode sp by auto
  have cs: "body_cost subs2 \<le> m" using fuel MultiNode sp by (simp add: body_cost_def)
  from release_tree [OF ls ds wb' wfs frs tm' pos cs] obtain s' where
    "mr_release m ex m1 s = Ret (MultipartReader h B' None True [], s')" "view s' = bl @ rest"
    by auto
  moreover have "\<not> mr_at_eof m1" using pos by (simp add: positioned_def)
  ultimately show ?thesis using lp by simp
qed

text \<open>
  Claim C2, at an input where the code departs from it. The stream delivers at most two
  bytes for each \<^verbatim>\<open>read(n)\<close>. The body is well-formed: a part that declares its five
  bytes, and a part of one line. \<^verbatim>\<open>next()\<close> yields the first part with the stream at
  the first byte of its content. The caller reads nothing of it and calls \<^verbatim>\<open>next()\<close>
  again, which releases the part: \<^verbatim>\<open>read_chunk\<close> asks for five bytes, is given two and
  counts five, the part is taken to be at its end with three of its bytes unread, and
  the assertion on the CRLF fails on them. \<^verbatim>\<open>next()\<close> raises AssertionError where it was
  to yield the second part; so does \<^verbatim>\<open>release()\<close> of the part by itself. On the stream
  that delivers reads in full, the same call of \<^verbatim>\<open>next()\<close> yields the second part at its
  content.
\<close>

theorem next_fails_to_drain_on_short_reads:
  "mr_next 9 short_ext demo_reader
     (''--B'' @ CRLF @ ''Content-Length: 5'' @ CRLF @ CRLF @ ''hello'' @ CRLF
      @ ''--B'' @ CRLF @ CRLF @ ''x'' @ CRLF @ ''--B--'' @ CRLF) =
     Ret (Some (BodyPart demo_sized_reader),
          MultipartReader [] ''--B'' (Some (BodyPart demo_sized_reader)) False [],
          ''hello'' @ CRLF @ ''--B'' @ CRLF @ CRLF @ ''x'' @ CRLF @ ''--B--'' @ CRLF)
   \<and> mr_next 9 short_ext
       (MultipartReader [] ''--B'' (Some (BodyPart demo_sized_reader)) False [])
       (''hello'' @ CRLF @ ''--B'' @ CRLF @ CRLF @ ''x'' @ CRLF @ ''--B--'' @ CRLF) =
     Raise AssertionError
   \<and> bp_release 8 short_ext demo_sized_reader
       (''hello'' @ CRLF @ ''--B'' @ CRLF @ CRLF @ ''x'' @ CRLF @ ''--B--'' @ CRLF) =
     Raise AssertionError
   \<and> bp_read_chunk short_ext demo_sized_reader
       (''hello'' @ CRLF @ ''--B'' @ CRLF @ CRLF @ ''x'' @ CRLF @ ''--B--'' @ CRLF) 8192 =
     Ret (''he'', demo_sized_reader\<lparr>bp_at_eof := True, bp_read_bytes := 5\<rparr>,
          ''llo'' @ CRLF @ ''--B'' @ CRLF @ CRLF @ ''x'' @ CRLF @ ''--B--'' @ CRLF)
   \<and> mr_next 9 demo_ext
       (MultipartReader [] ''--B'' (Some (BodyPart demo_sized_reader)) False [])
       (''hello'' @ CRLF @ ''--B'' @ CRLF @ CRLF @ ''x'' @ CRLF @ ''--B--'' @ CRLF) =
     Ret (Some (BodyPart demo_lines_reader),
          MultipartReader [] ''--B'' (Some (BodyPart demo_lines_reader)) False [],
          ''x'' @ CRLF @ ''--B--'' @ CRLF)"
  by code_simp

lemma demo_nested_wf: "wf_tree demo_ext (\<lambda>s. s) ''--B'' [demo_nested_node, demo_sized_node]"
proof -
  have 2: "decode_strip demo_ext CRLF = Some []" by code_simp
  have 3: "wf_boundary ''--B''" by code_simp
  have 4: "list_all (wf_node demo_ext ''--B'') [demo_nested_node, demo_sized_node]" by code_simp
  from demo_streams 2 3 4 show ?thesis by (simp add: wf_tree_def)
qed

lemma demo_nested_abandoned:
  "abandoned demo_ext (\<lambda>s. s) ''--B'' demo_nested_node
     (encode_nodes ''--B'' [demo_sized_node] @ ''--B--'' @ [])
     (Multipart (MultipartReader demo_nested_headers ''--IN'' None False [])) demo_nested_stream"
proof -
  let ?subs = "[SizedNode [''Content-Length: 2'' @ CRLF] [(''Content-Length'', ''2'')] ''ab'']"
  have "positioned demo_nested_headers ''--IN'' (lead ''--IN'' ?subs (''--IN'' @ ''--'' @ CRLF))
      (after_lead ''--IN'' ?subs (''--IN'' @ ''--'' @ CRLF)
         (encode_nodes ''--B'' [demo_sized_node] @ ''--B--'' @ []))
      (MultipartReader demo_nested_headers ''--IN'' None False []) demo_nested_stream"
    by code_simp
  then show ?thesis
    unfolding abandoned_def demo_nested_node_def wire_node.case
    by (intro exI [of _ "[]"] exI [of _ ?subs] exI conjI) simp_all
qed

lemma demo_nested_cost: "body_cost [demo_nested_node, demo_sized_node] \<le> 31"
  by code_simp

text \<open>
  What \<^verbatim>\<open>next()\<close> does with an unfinished part on a stream that delivers lines and, where
  a part declares a length, reads in full. In a well-formed body, let \<^verbatim>\<open>next()\<close> have
  yielded a part and the caller have left it unfinished: a line-bounded part after any
  number of \<^verbatim>\<open>readline\<close> calls, a length-bounded part after \<^verbatim>\<open>read_chunk\<close> calls of any
  non-negative sizes, a nested reader after any number of its parts were taken and read.
  Then \<^verbatim>\<open>next()\<close>, given enough steps, yields the part that follows, new, with the stream
  at the first byte of its content, or reports the end of the body behind the terminator
  line; the pushback buffer of the reader is empty again.
\<close>

theorem next_drains_abandoned_part:
  assumes wf: "wf_tree ex view B (w # ws)" and tm: "terminator B tm rest"
    and ab: "abandoned ex view B w (encode_nodes B ws @ tm @ rest) lp s"
    and fuel: "body_cost (w # ws) \<le> n"
  shows "\<exists>s'. mr_next n ex (MultipartReader hs B (Some lp) False []) s =
             Ret (next_part B ws, MultipartReader hs B (next_part B ws) (ws = []) [], s')
           \<and> view s' = next_view B ws tm rest"
proof -
  from wf have ls: "line_stream ex view" and ds: "decode_strip ex CRLF = Some []"
    and wb: "wf_boundary B" and wn: "wf_node ex B w" and wfs: "list_all (wf_node ex B) ws"
    and fr: "has_sized w \<longrightarrow> full_reads ex view"
    by (auto simp: wf_tree_def)
  from fuel obtain m where n: "n = Suc m" and m: "node_cost w + body_cost ws \<le> Suc m"
    by (cases n) (auto simp: body_cost_def)
  have nc: "node_cost w \<le> m" using m by (simp add: body_cost_def)
  have hl: "(case ws of [] \<Rightarrow> 0 | w # _ \<Rightarrow> Suc (length (node_header_lines w))) < Suc m"
  proof (cases ws)
    case Nil
    then show ?thesis by simp
  next
    case (Cons w2 ws2)
    have "length (node_header_lines w2) + 3 \<le> node_cost w2" by (cases w2) simp_all
    then show ?thesis using m Cons by (cases w) (simp_all add: body_cost_def)
  qed
  note lf = lead_facts [OF wb tm, of ws]
  have ab': "abandoned ex view B w (lead B ws tm @ after_lead B ws tm rest) lp s"
    using ab lf(4) by simp
  from release_abandoned [OF ls ds wb wn fr lf(1) lf(3) ab' nc] obtain lp' s1 where
    ne: "\<not> part_at_eof lp" and rel: "part_release m ex lp s = Ret (lp', s1)"
    and un: "part_unread lp' = [] \<and> view s1 = lead B ws tm @ after_lead B ws tm rest
             \<or> part_unread lp' = [lead B ws tm] \<and> view s1 = after_lead B ws tm rest"
    by blast
  have pos: "positioned hs B (lead B ws tm) (after_lead B ws tm rest)
      (MultipartReader hs B None False (part_unread lp')) (view s1)"
    using un by (auto simp: positioned_def pushed_back_def)
  from next_releases_last_part [OF _ _ ne rel, of "MultipartReader hs B (Some lp) False []"]
  have "mr_next (Suc m) ex (MultipartReader hs B (Some lp) False []) s =
      mr_next (Suc m) ex (MultipartReader hs B None False (part_unread lp')) s1"
    by simp
  moreover from next_at_body [OF ls ds wb wfs tm pos hl]
  have "\<exists>s'. mr_next (Suc m) ex (MultipartReader hs B None False (part_unread lp')) s1 =
             Ret (next_part B ws, MultipartReader hs B (next_part B ws) (ws = []) [], s')
           \<and> view s' = next_view B ws tm rest" .
  ultimately show ?thesis using n by simp
qed

text \<open>The nested reader of the example body is left as it was yielded; \<^verbatim>\<open>next()\<close> of its
  parent goes through the nested body and yields the part behind it.\<close>

theorem next_drains_abandoned_part_witness:
  "mr_next 31 demo_ext
     (MultipartReader [] ''--B''
        (Some (Multipart (MultipartReader demo_nested_headers ''--IN'' None False []))) False [])
     demo_nested_stream =
   Ret (Some (BodyPart demo_sized_reader),
        MultipartReader [] ''--B'' (Some (BodyPart demo_sized_reader)) False [],
        ''hello'' @ CRLF @ ''--B--'')"
proof -
  have t: "terminator ''--B'' ''--B--'' []" by (simp add: terminator_def)
  from next_drains_abandoned_part [OF demo_nested_wf t demo_nested_abandoned demo_nested_cost, of "[]"]
  obtain s' where "mr_next 31 demo_ext
     (MultipartReader [] ''--B''
        (Some (Multipart (MultipartReader demo_nested_headers ''--IN'' None False []))) False [])
     demo_nested_stream =
     Ret (next_part ''--B'' [demo_sized_node],
          MultipartReader [] ''--B'' (next_part ''--B'' [demo_sized_node]) ([demo_sized_node] = []) [],
          s')" "s' = next_view ''--B'' [demo_sized_node] ''--B--'' []"
    by blast
  then show ?thesis
    by (simp add: demo_sized_node_def demo_sized_reader_def encode_nodes_def)
qed

subsection \<open>The terminator of a length-bounded part\<close>

text \<open>
  Claim C4, at the inputs where the code departs from it. The part declares five
  bytes. On a stream where \<^verbatim>\<open>XX\<close> follows the five bytes, \<^verbatim>\<open>read_chunk(5)\<close> returns the five
  bytes and ends the part without looking at what follows, and a later \<^verbatim>\<open>read()\<close> returns
  the empty bytes: nothing is raised, where \<^verbatim>\<open>read()\<close> on the same part and stream fails
  its assertion. On a well-formed stream \<^verbatim>\<open>read_chunk(5)\<close> leaves the CRLF unread, and the
  \<^verbatim>\<open>next()\<close> of the owning reader, which does not release a part that is at its end, takes
  the CRLF for the boundary line and raises ValueError.
\<close>

theorem read_chunk_to_end_leaves_terminator_unchecked:
  "bp_read_chunk demo_ext demo_sized_reader (''helloXX'' @ CRLF @ ''--B--'' @ CRLF) 5 =
     Ret (''hello'', demo_sized_reader\<lparr>bp_at_eof := True, bp_read_bytes := 5\<rparr>,
          ''XX'' @ CRLF @ ''--B--'' @ CRLF)
   \<and> bp_read 5 demo_ext (demo_sized_reader\<lparr>bp_at_eof := True, bp_read_bytes := 5\<rparr>)
        (''XX'' @ CRLF @ ''--B--'' @ CRLF) False =
     Ret ([], demo_sized_reader\<lparr>bp_at_eof := True, bp_read_bytes := 5\<rparr>,
          ''XX'' @ CRLF @ ''--B--'' @ CRLF)
   \<and> bp_read 5 demo_ext demo_sized_reader (''helloXX'' @ CRLF @ ''--B--'' @ CRLF) False =
     Raise AssertionError
   \<and> bp_read_chunk demo_ext demo_sized_reader (''hello'' @ CRLF @ ''--B--'' @ CRLF) 5 =
     Ret (''hello'', demo_sized_reader\<lparr>bp_at_eof := True, bp_read_bytes := 5\<rparr>,
          CRLF @ ''--B--'' @ CRLF)
   \<and> mr_next 5 demo_ext
        (MultipartReader [] ''--B''
           (Some (BodyPart (demo_sized_reader\<lparr>bp_at_eof := True, bp_read_bytes := 5\<rparr>))) False [])
        (CRLF @ ''--B--'' @ CRLF) =
     Raise (ValueError_boundary [] ''--B'')"
  by code_simp

subsection \<open>Decoding what was read\<close>

lemma read_decode_on_the_wire:
  assumes wf: "wf_body ex B (wp # wps)" and fuel: "part_cost wp \<le> n"
    and enc: "enc = ''gzip'' \<and> wbits = 16 + MAX_WBITS \<or> enc = ''deflate'' \<and> wbits = - MAX_WBITS"
    and hdr: "headers_get (wp_headers wp) CONTENT_ENCODING = Some enc"
    and z: "zlib_decompress ex (wire_payload wp) wbits = Some plain"
  shows "\<exists>p' s'. bp_read n ex (fresh_part B wp) (wire_between wp @ encode_body B wps @ rest) True =
           Ret (plain, p', s')"
proof -
  from read_fresh_part [OF wf fuel, of rest] obtain p' s' where
    rd: "bp_read n ex (fresh_part B wp) (wire_between wp @ encode_body B wps @ rest) False =
           Ret (wire_payload wp, p', s')"
    by blast
  have ne: "\<not> bp_at_eof (fresh_part B wp)" by (simp add: fresh_part_def)
  have h: "bp_headers p' = wp_headers wp"
    using bp_read_headers [OF rd] by (simp add: fresh_part_def)
  have "bp_decode ex p' (wire_payload wp) = Ret plain"
    using enc hdr z h
    by (auto simp: bp_decode_def bp_decode_gzip_def bp_decode_deflate_def)
  then show ?thesis using bp_read_decode [OF ne rd] by simp
qed

text \<open>
  Claim C8. Compression is zlib's, a parameter of the model: bytes are the gzip (raw
  deflate) form of \<open>plain\<close> when \<^verbatim>\<open>zlib.decompress\<close> with the window bits of gzip (of raw
  deflate) turns them into \<open>plain\<close>. First, for a part that is not at its end and whose
  \<^verbatim>\<open>read()\<close> returns such bytes, \<^verbatim>\<open>read(decode=True)\<close> returns exactly \<open>plain\<close> when the
  Content-Encoding header is \<^verbatim>\<open>gzip\<close> (\<^verbatim>\<open>deflate\<close>), and leaves the part and the stream as
  \<^verbatim>\<open>read()\<close> does. Second, on the wire: for a part of a well-formed body whose header is
  \<^verbatim>\<open>gzip\<close> (\<^verbatim>\<open>deflate\<close>) and whose payload, as \<^verbatim>\<open>read()\<close> returns it, is such a
  compressed form, \<^verbatim>\<open>read(decode=True)\<close> on the new part returns \<open>plain\<close>.
\<close>

theorem read_decode_returns_plaintext:
  "(\<not> bp_at_eof p \<and> bp_read n ex p s False = Ret (raw, p', s') \<longrightarrow>
      (headers_get (bp_headers p) CONTENT_ENCODING = Some ''gzip''
         \<and> zlib_decompress ex raw (16 + MAX_WBITS) = Some plain \<longrightarrow>
       bp_read n ex p s True = Ret (plain, p', s'))
      \<and> (headers_get (bp_headers p) CONTENT_ENCODING = Some ''deflate''
         \<and> zlib_decompress ex raw (- MAX_WBITS) = Some plain \<longrightarrow>
       bp_read n ex p s True = Ret (plain, p', s')))
   \<and> (wf_body mex B (wp # wps) \<and> part_cost wp \<le> k
      \<and> (enc = ''gzip'' \<and> wbits = 16 + MAX_WBITS \<or> enc = ''deflate'' \<and> wbits = - MAX_WBITS)
      \<and> headers_get (wp_headers wp) CONTENT_ENCODING = Some enc
      \<and> zlib_decompress mex (wire_payload wp) wbits = Some plain' \<longrightarrow>
      (\<exists>q s1. bp_read k mex (fresh_part B wp) (wire_between wp @ encode_body B wps @ rest) True =
           Ret (plain', q, s1)))"
proof -
  have a: "\<not> bp_at_eof p \<and> bp_read n ex p s False = Ret (raw, p', s') \<longrightarrow>
      (headers_get (bp_headers p) CONTENT_ENCODING = Some ''gzip''
         \<and> zlib_decompress ex raw (16 + MAX_WBITS) = Some plain \<longrightarrow>
       bp_read n ex p s True = Ret (plain, p', s'))
      \<and> (headers_get (bp_headers p) CONTENT_ENCODING = Some ''deflate''
         \<and> zlib_decompress ex raw (- MAX_WBITS) = Some plain \<longrightarrow>
       bp_read n ex p s True = Ret (plain, p', s'))"
  proof
    assume h: "\<not> bp_at_eof p \<and> bp_read n ex p s False = Ret (raw, p', s')"
    then have 1: "\<not> bp_at_eof p" and 2: "bp_read n ex p s False = Ret (raw, p', s')" by simp_all
    show "(headers_get (bp_headers p) CONTENT_ENCODING = Some ''gzip''
         \<and> zlib_decompress ex raw (16 + MAX_WBITS) = Some plain \<longrightarrow>
       bp_read n ex p s True = Ret (plain, p', s'))
      \<and> (headers_get (bp_headers p) CONTENT_ENCODING = Some ''deflate''
         \<and> zlib_decompress ex raw (- MAX_WBITS) = Some plain \<longrightarrow>
       bp_read n ex p s True = Ret (plain, p', s'))"
      using bp_read_decode [OF 1 2] bp_read_headers [OF 2]
      by (simp add: bp_decode_def bp_decode_gzip_def bp_decode_deflate_def)
  qed
  from a read_decode_on_the_wire [of mex B wp wps k enc wbits plain' rest]
  show ?thesis by blast
qed

lemma read_raw_example:
  "bp_read 2 demo_ext
     (demo_sized_reader\<lparr>bp_headers := [(''Content-Length'', ''5''), (''Content-Encoding'', ''gzip'')]\<rparr>)
     (''GZ:hi'' @ CRLF @ ''--B--'') False =
   Ret (''GZ:hi'',
     demo_sized_reader\<lparr>bp_headers := [(''Content-Length'', ''5''), (''Content-Encoding'', ''gzip'')],
       bp_at_eof := True, bp_read_bytes := 5\<rparr>, ''--B--'')"
  by code_simp

theorem read_decode_returns_plaintext_witness:
  "bp_read 2 demo_ext
     (demo_sized_reader\<lparr>bp_headers := [(''Content-Length'', ''5''), (''Content-Encoding'', ''gzip'')]\<rparr>)
     (''GZ:hi'' @ CRLF @ ''--B--'') True =
   Ret (''hi'',
     demo_sized_reader\<lparr>bp_headers := [(''Content-Length'', ''5''), (''Content-Encoding'', ''gzip'')],
       bp_at_eof := True, bp_read_bytes := 5\<rparr>, ''--B--'')"
proof -
  note t = read_decode_returns_plaintext [THEN conjunct1, THEN mp, THEN conjunct1, THEN mp, OF conjI [OF _ read_raw_example] conjI,
      of "''hi''"]
  show ?thesis
    by (rule t)
      (simp_all add: demo_sized_reader_def headers_get_def CONTENT_ENCODING_def demo_ext_def
        demo_zlib_def MAX_WBITS_def)
qed

subsection \<open>Release, and the end of a body\<close>

text \<open>\<^verbatim>\<open>BodyPartReader.release()\<close> goes the way of \<^verbatim>\<open>read()\<close> and drops the bytes: it
  leaves the part and the stream as \<^verbatim>\<open>read()\<close> does, and fails where \<^verbatim>\<open>read()\<close> fails.\<close>

theorem release_discards_what_read_returns:
  "bp_release n ex p s =
     (case bp_read n ex p s False of
        Ret (d, p', s') \<Rightarrow> Ret (p', s') | Raise e \<Rightarrow> Raise e | OutOfFuel \<Rightarrow> OutOfFuel)"
  by (rule release_is_read)

lemma mr_next_at_eof: "mr_at_eof r \<Longrightarrow> mr_next n ex r s = Ret (None, r, s)"
  by (cases n) simp_all

lemma mr_next_none_at_eof:
  assumes "mr_next n ex r s = Ret (None, r', s')" shows "mr_at_eof r'"
proof (cases n)
  case 0
  then show ?thesis using assms by (simp split: if_splits)
next
  case (Suc m)
  show ?thesis
  proof (cases "mr_at_eof r")
    case True
    then show ?thesis using assms Suc by simp
  next
    case False
    then show ?thesis using assms Suc
      by (auto simp del: mr_maybe_release_last_part.simps split: res.splits if_splits)
  qed
qed

text \<open>A reader that is at its end stays there: \<^verbatim>\<open>next()\<close> returns no part and changes
  nothing. And whenever \<^verbatim>\<open>next()\<close> returns no part, the reader is at its end.\<close>

theorem next_returns_no_part_at_the_end:
  "(mr_at_eof r \<longrightarrow> mr_next n ex r s = Ret (None, r, s))
   \<and> (mr_next n ex r s = Ret (None, r', s') \<longrightarrow> mr_at_eof r')"
  using mr_next_at_eof [of r n ex s] mr_next_none_at_eof [of n ex r s r' s'] by blast

theorem next_returns_no_part_at_the_end_witness:
  "mr_next 1 demo_ext (MultipartReader [] ''--B'' None True []) ''x'' =
     Ret (None, MultipartReader [] ''--B'' None True [], ''x'')"
  using next_returns_no_part_at_the_end [of "MultipartReader [] ''--B'' None True []" 1 demo_ext "''x''"]
  by simp

end
